theory Spec2Isabelle
  imports Main
begin

section \<open>JavaScript values and strings\<close>

text \<open>
  The template engine (\<^verbatim>\<open>enterprise/templates/engine.ts\<close>) works on values of type
  \<^verbatim>\<open>unknown\<close> and on JavaScript strings. A string is a list of code units; the
  model covers the code units below 256, one \<^typ>\<open>char\<close> each. A number is an integer
  that a double holds exactly (magnitude at most \<open>2^53 - 1\<close>). A keyed record lists its own
  enumerable properties in the order \<^verbatim>\<open>Object.entries\<close> yields them. \<open>JFun\<close> is a
  built-in function, met only when a property lookup falls through to
  \<^verbatim>\<open>Object.prototype\<close>.

  A variable mapping is a plain object. The source reads it by \<^verbatim>\<open>variables[name]\<close>,
  which answers the own property of that name or, failing that, the member that a plain
  object inherits under that name; the model does the same. The notions of the specification
  (a name being a key of the mapping, a variable being held) go by the own properties alone.

  Every throw of the source is a value \<open>Inl e\<close>. Where the source leaves the part of
  JavaScript that the model covers (a fractional number, the identity of two objects, a
  record key that is not a literal regular expression), the model answers \<open>Inl Unmodelled\<close>
  and says nothing about the code.
\<close>

datatype jsval =
    JUndefined
  | JNull
  | JBool bool
  | JNum int
  | JStr string
  | JArr "jsval list"
  | JObj "(string \<times> jsval) list"
  | JFun string

datatype engine_error =
    ParentNotFound string
  | RequiredVariableMissing string
  | TypeError
  | Unmodelled

type_synonym 'a result = "engine_error + 'a"

definition bindE :: "'a result \<Rightarrow> ('a \<Rightarrow> 'b result) \<Rightarrow> 'b result" where
  "bindE r f = (case r of Inl e \<Rightarrow> Inl e | Inr v \<Rightarrow> f v)"

fun mapE :: "('a \<Rightarrow> 'b result) \<Rightarrow> 'a list \<Rightarrow> 'b list result" where
  "mapE f [] = Inr []"
| "mapE f (x # xs) =
     (case f x of Inl e \<Rightarrow> Inl e
      | Inr y \<Rightarrow> (case mapE f xs of Inl e \<Rightarrow> Inl e | Inr ys \<Rightarrow> Inr (y # ys)))"

lemma mapE_cong [fundef_cong]:
  "xs = ys \<Longrightarrow> (\<And>x. x \<in> set ys \<Longrightarrow> f x = g x) \<Longrightarrow> mapE f xs = mapE g ys"
  by (induction ys arbitrary: xs) (auto split: sum.splits)

subsection \<open>Character classes of the regular expressions\<close>

definition isWordChar :: "char \<Rightarrow> bool" where
  "isWordChar c \<longleftrightarrow>
     c \<in> set ''abcdefghijklmnopqrstuvwxyzABCDEFGHIJKLMNOPQRSTUVWXYZ0123456789_''"

definition isDigit :: "char \<Rightarrow> bool" where
  "isDigit c \<longleftrightarrow> c \<in> set ''0123456789''"

text \<open>\<^verbatim>\<open>\s\<close>, also what \<^verbatim>\<open>trim\<close> strips: tab, LF, VT, FF, CR, space, NBSP.\<close>

definition isSpace :: "char \<Rightarrow> bool" where
  "isSpace c \<longleftrightarrow>
     c \<in> set [CHR 0x09, CHR 0x0A, CHR 0x0B, CHR 0x0C, CHR 0x0D, CHR 0x20, CHR 0xA0]"

definition startsWith :: "string \<Rightarrow> string \<Rightarrow> bool" where
  "startsWith p s \<longleftrightarrow> take (length p) s = p"

definition endsWith :: "string \<Rightarrow> string \<Rightarrow> bool" where
  "endsWith p s \<longleftrightarrow> length p \<le> length s \<and> drop (length s - length p) s = p"

definition trim :: "string \<Rightarrow> string" where
  "trim s = rev (dropWhile isSpace (rev (dropWhile isSpace s)))"

text \<open>The text preceding the first occurrence of a literal, and the text following it.\<close>

fun splitAt :: "string \<Rightarrow> string \<Rightarrow> (string \<times> string) option" where
  "splitAt pat [] = (if pat = [] then Some ([], []) else None)"
| "splitAt pat (c # cs) =
     (if startsWith pat (c # cs) then Some ([], drop (length pat) (c # cs))
      else (case splitAt pat cs of None \<Rightarrow> None | Some (a, b) \<Rightarrow> Some (c # a, b)))"

definition includesStr :: "string \<Rightarrow> string \<Rightarrow> bool" where
  "includesStr s pat \<longleftrightarrow> splitAt pat s \<noteq> None"

subsection \<open>Numbers as text\<close>

definition digitChar :: "nat \<Rightarrow> char" where
  "digitChar d = ''0123456789'' ! (d mod 10)"

function showNat :: "nat \<Rightarrow> string" where
  "showNat n = (if n < 10 then [digitChar n] else showNat (n div 10) @ [digitChar (n mod 10)])"
  by pat_completeness auto
termination
  by (relation "measure id") auto

declare showNat.simps [simp del]

definition showInt :: "int \<Rightarrow> string" where
  "showInt i = (if i < 0 then CHR ''-'' # showNat (nat (- i)) else showNat (nat i))"

definition maxSafeInteger :: int where
  "maxSafeInteger = 9007199254740991"

definition digitVal :: "char \<Rightarrow> nat" where
  "digitVal c = (of_char c - 48)"

definition readNat :: "string \<Rightarrow> nat" where
  "readNat ds = foldl (\<lambda>acc c. 10 * acc + digitVal c) 0 ds"

text \<open>
  \<^verbatim>\<open>Number(s)\<close> on a string: \<open>Inr None\<close> is NaN. The text is trimmed; the empty text is 0;
  an optional sign and decimal digits are read exactly. Any other text that starts the way a
  numeric literal does (sign, digit, point) or is \<^verbatim>\<open>Infinity\<close> is outside the model; a
  text that starts otherwise is no numeric literal, so NaN.
\<close>

definition readSafe :: "bool \<Rightarrow> string \<Rightarrow> int option result" where
  "readSafe neg ds =
     (let n = int (readNat ds) in
      if n \<le> maxSafeInteger then Inr (Some (if neg then - n else n)) else Inl Unmodelled)"

definition numberOfString :: "string \<Rightarrow> int option result" where
  "numberOfString s =
     (let t = trim s in
      if t = [] then Inr (Some 0)
      else if list_all isDigit t then readSafe False t
      else if hd t = CHR ''-'' \<and> tl t \<noteq> [] \<and> list_all isDigit (tl t) then readSafe True (tl t)
      else if hd t = CHR ''+'' \<and> tl t \<noteq> [] \<and> list_all isDigit (tl t) then readSafe False (tl t)
      else if hd t \<in> set ''+-.0123456789'' \<or> t = ''Infinity'' then Inl Unmodelled
      else Inr None)"

subsection \<open>Conversions\<close>

definition joinWith :: "string \<Rightarrow> string list \<Rightarrow> string" where
  "joinWith sep xs = (case xs of [] \<Rightarrow> [] | y # ys \<Rightarrow> y @ concat (map (\<lambda>z. sep @ z) ys))"

text \<open>
  \<^verbatim>\<open>String(v)\<close>. An array joins its elements with a comma, null and undefined elements as
  the empty text. A record gives \<^verbatim>\<open>[object Object]\<close> unless it has a property
  \<^verbatim>\<open>toString\<close> or \<^verbatim>\<open>valueOf\<close> of its own (outside the model).
\<close>

fun toStr :: "jsval \<Rightarrow> string result" where
  "toStr JUndefined = Inr ''undefined''"
| "toStr JNull = Inr ''null''"
| "toStr (JBool b) = Inr (if b then ''true'' else ''false'')"
| "toStr (JNum n) = (if \<bar>n\<bar> \<le> maxSafeInteger then Inr (showInt n) else Inl Unmodelled)"
| "toStr (JStr s) = Inr s"
| "toStr (JArr xs) =
     (case mapE (\<lambda>x. if x = JUndefined \<or> x = JNull then Inr [] else toStr x) xs of
        Inl e \<Rightarrow> Inl e
      | Inr ss \<Rightarrow> Inr (joinWith '','' ss))"
| "toStr (JObj kvs) =
     (if ''toString'' \<in> fst ` set kvs \<or> ''valueOf'' \<in> fst ` set kvs then Inl Unmodelled
      else Inr ''[object Object]'')"
| "toStr (JFun f) = Inr (''function '' @ f @ ''() { [native code] }'')"

text \<open>\<^verbatim>\<open>Number(v)\<close>; \<open>Inr None\<close> is NaN.\<close>

fun toNumber :: "jsval \<Rightarrow> int option result" where
  "toNumber JUndefined = Inr None"
| "toNumber JNull = Inr (Some 0)"
| "toNumber (JBool b) = Inr (Some (if b then 1 else 0))"
| "toNumber (JNum n) = Inr (Some n)"
| "toNumber (JStr s) = numberOfString s"
| "toNumber (JArr xs) = bindE (toStr (JArr xs)) numberOfString"
| "toNumber (JObj kvs) = bindE (toStr (JObj kvs)) (\<lambda>_. Inr None)"
| "toNumber (JFun f) = Inr None"

text \<open>Truthiness, as \<^verbatim>\<open>||\<close>, \<^verbatim>\<open>!\<close> and \<^verbatim>\<open>?:\<close> read a value.\<close>

fun truthy :: "jsval \<Rightarrow> bool" where
  "truthy JUndefined = False"
| "truthy JNull = False"
| "truthy (JBool b) = b"
| "truthy (JNum n) = (n \<noteq> 0)"
| "truthy (JStr s) = (s \<noteq> [])"
| "truthy _ = True"

definition orElse :: "jsval \<Rightarrow> jsval \<Rightarrow> jsval" where
  "orElse a b = (if truthy a then a else b)"

fun isArray :: "jsval \<Rightarrow> bool" where
  "isArray (JArr xs) = True"
| "isArray _ = False"

text \<open>
  \<^verbatim>\<open>a === b\<close>. Two arrays or two records are equal when they are the same object, which
  the model cannot tell.
\<close>

fun strictEq :: "jsval \<Rightarrow> jsval \<Rightarrow> bool result" where
  "strictEq (JArr xs) (JArr ys) = Inl Unmodelled"
| "strictEq (JObj xs) (JObj ys) = Inl Unmodelled"
| "strictEq a b = Inr (a = b)"

text \<open>\<^verbatim>\<open>Array.prototype.includes\<close>: the first element equal to the value decides.\<close>

fun arrIncludes :: "jsval list \<Rightarrow> jsval \<Rightarrow> bool result" where
  "arrIncludes [] v = Inr False"
| "arrIncludes (x # xs) v =
     (case strictEq x v of
        Inl e \<Rightarrow> Inl e
      | Inr eq \<Rightarrow> if eq then Inr True else arrIncludes xs v)"

subsection \<open>Property lookup\<close>

type_synonym jsrecord = "(string \<times> jsval) list"

text \<open>
  What a plain object inherits from \<^verbatim>\<open>Object.prototype\<close>: eleven built-in functions, and
  the accessor \<^verbatim>\<open>__proto__\<close>, which reads as the (empty) prototype object itself.
\<close>

definition objectPrototype :: "string \<Rightarrow> jsval" where
  "objectPrototype k =
     (if k = ''constructor'' then JFun ''Object''
      else if k \<in> set [''__defineGetter__'', ''__defineSetter__'', ''hasOwnProperty'',
                       ''__lookupGetter__'', ''__lookupSetter__'', ''isPrototypeOf'',
                       ''propertyIsEnumerable'', ''toString'', ''valueOf'', ''toLocaleString'']
      then JFun k
      else if k = ''__proto__'' then JObj []
      else JUndefined)"

text \<open>\<^verbatim>\<open>obj[k]\<close> on a plain object: its own property, else the inherited one.\<close>

definition getProp :: "jsrecord \<Rightarrow> string \<Rightarrow> jsval" where
  "getProp r k = (case map_of r k of Some v \<Rightarrow> v | None \<Rightarrow> objectPrototype k)"

text \<open>
  An insertion-ordered table (a \<^verbatim>\<open>Map\<close>, or the own properties of an object): setting an
  existing key keeps its place, a new key goes to the end.
\<close>

fun mapSet :: "('k \<times> 'v) list \<Rightarrow> 'k \<Rightarrow> 'v \<Rightarrow> ('k \<times> 'v) list" where
  "mapSet [] k v = [(k, v)]"
| "mapSet ((k', v') # r) k v = (if k' = k then (k, v) # r else (k', v') # mapSet r k v)"

text \<open>
  The own properties of a plain object are enumerated with the array indices first, in
  ascending numeric order, and the other keys after them in the order of their creation. An
  array index is the canonical decimal text of an integer below \<open>2^32 - 1\<close>.
\<close>

definition isArrayIndex :: "string \<Rightarrow> bool" where
  "isArrayIndex k \<longleftrightarrow>
     k \<noteq> [] \<and> list_all isDigit k \<and> (k = ''0'' \<or> hd k \<noteq> CHR ''0'')
     \<and> readNat k < 4294967295"

fun insertIndexKey :: "jsrecord \<Rightarrow> string \<Rightarrow> jsval \<Rightarrow> jsrecord" where
  "insertIndexKey [] k v = [(k, v)]"
| "insertIndexKey ((k', v') # r) k v =
     (if isArrayIndex k' \<and> readNat k' < readNat k then (k', v') # insertIndexKey r k v
      else (k, v) # (k', v') # r)"

text \<open>
  \<^verbatim>\<open>obj[k] = v\<close> on a plain object: the property keeps its place if it exists; a new
  array index goes to its numeric place among the indices, any other new key to the end.
  Writing \<^verbatim>\<open>__proto__\<close> runs the inherited setter instead (outside the model).
\<close>

definition setProp :: "jsrecord \<Rightarrow> string \<Rightarrow> jsval \<Rightarrow> jsrecord result" where
  "setProp r k v =
     (if k = ''__proto__'' then Inl Unmodelled
      else if map_of r k = None \<and> isArrayIndex k then Inr (insertIndexKey r k v)
      else Inr (mapSet r k v))"

section \<open>String.prototype.replace\<close>

text \<open>
  \<^verbatim>\<open>s.replace(re, fn)\<close> with a global regular expression: the matcher \<open>m\<close> is tried at
  every position from the left; it answers the captures and the text that follows the match. A match
  is replaced by what the callback returns for the matched text and the captures, and the scan
  goes on behind the match. None of the engine's patterns matches the empty text.
\<close>

function replaceAllFn ::
  "(string \<Rightarrow> ('g \<times> string) option) \<Rightarrow> (string \<Rightarrow> 'g \<Rightarrow> string result) \<Rightarrow> string \<Rightarrow> string result"
where
  "replaceAllFn m f [] = Inr []"
| "replaceAllFn m f (c # cs) =
     (case m (c # cs) of
        None \<Rightarrow> (case replaceAllFn m f cs of Inl e \<Rightarrow> Inl e | Inr t \<Rightarrow> Inr (c # t))
      | Some (g, rest) \<Rightarrow>
          if length rest \<le> length cs then
            (case f (take (Suc (length cs) - length rest) (c # cs)) g of
               Inl e \<Rightarrow> Inl e
             | Inr r \<Rightarrow>
                 (case replaceAllFn m f rest of Inl e \<Rightarrow> Inl e | Inr t \<Rightarrow> Inr (r @ t)))
          else Inl Unmodelled)"
  by pat_completeness auto
termination
  by (relation "measure (\<lambda>(m, f, s). length s)") auto

text \<open>
  The replacement patterns of a replacement \<^emph>\<open>string\<close>, for a pattern without capture
  groups: \<^verbatim>\<open>$$\<close> is a dollar, \<^verbatim>\<open>$&\<close> the matched text, \<^verbatim>\<open>$`\<close> the text preceding the
  match, \<^verbatim>\<open>$'\<close> the text following it; any other dollar stands for itself.
\<close>

fun expandReplacement :: "string \<Rightarrow> string \<Rightarrow> string \<Rightarrow> string \<Rightarrow> string" where
  "expandReplacement [] matched preceding following = []"
| "expandReplacement [c] matched preceding following = [c]"
| "expandReplacement (c # d # r) matched preceding following =
     (if c = CHR ''$'' \<and> d = CHR ''$'' then CHR ''$'' # expandReplacement r matched preceding following
      else if c = CHR ''$'' \<and> d = CHR ''&'' then matched @ expandReplacement r matched preceding following
      else if c = CHR ''$'' \<and> d = CHR 0x60 then preceding @ expandReplacement r matched preceding following
      else if c = CHR ''$'' \<and> d = CHR 0x27 then following @ expandReplacement r matched preceding following
      else c # expandReplacement (d # r) matched preceding following)"

text \<open>
  \<^verbatim>\<open>s.replace(/lit/g, rep)\<close> for a literal pattern and a replacement string; \<open>pre\<close> is the
  text already scanned.
\<close>

function replaceAllStr :: "string \<Rightarrow> string \<Rightarrow> string \<Rightarrow> string \<Rightarrow> string" where
  "replaceAllStr pat rep pre [] = []"
| "replaceAllStr pat rep pre (c # cs) =
     (if pat \<noteq> [] \<and> startsWith pat (c # cs) then
        expandReplacement rep pat pre (drop (length pat) (c # cs))
          @ replaceAllStr pat rep (pre @ pat) (drop (length pat) (c # cs))
      else c # replaceAllStr pat rep (pre @ [c]) cs)"
  by pat_completeness auto
termination
  by (relation "measure (\<lambda>(pat, rep, pre, s). length s)") auto

text \<open>\<^verbatim>\<open>s.replace('lit', rep)\<close>: the first occurrence only.\<close>

definition replaceFirstStr :: "string \<Rightarrow> string \<Rightarrow> string \<Rightarrow> string" where
  "replaceFirstStr pat rep s =
     (case splitAt pat s of
        None \<Rightarrow> s
      | Some (preceding, following) \<Rightarrow> preceding @ expandReplacement rep pat preceding following @ following)"

section \<open>The interpolation language\<close>

subsection \<open>The patterns\<close>

text \<open>
  \<^verbatim>\<open>/\{\{(\w+)\}\}/\<close>: two opening braces, the longest run of word characters (at least
  one), two closing braces. The capture is the word.
\<close>

definition matchVariable :: "string \<Rightarrow> (string \<times> string) option" where
  "matchVariable s =
     (if startsWith ''{{'' s then
        (let r = drop 2 s; w = takeWhile isWordChar r; r' = dropWhile isWordChar r in
         if w \<noteq> [] \<and> startsWith ''}}'' r' then Some (w, drop 2 r') else None)
      else None)"

text \<open>
  The head of a block, \<^verbatim>\<open>\{\{#kw\s+(\w+)\}\}\<close>: the keyword, at least one white space,
  a word, two closing braces.
\<close>

definition matchBlockHead :: "string \<Rightarrow> string \<Rightarrow> (string \<times> string) option" where
  "matchBlockHead kw s =
     (if startsWith (''{{#'' @ kw) s then
        (let r = drop (3 + length kw) s;
             ws = takeWhile isSpace r; r1 = dropWhile isSpace r;
             w = takeWhile isWordChar r1; r2 = dropWhile isWordChar r1 in
         if ws \<noteq> [] \<and> w \<noteq> [] \<and> startsWith ''}}'' r2 then Some (w, drop 2 r2) else None)
      else None)"

text \<open>
  \<^verbatim>\<open>\{\{#kw\s+(\w+)\}\}([\s\S]*?)\{\{\/kw\}\}\<close>: the head, then the shortest text up to
  the closing tag. The captures are the word and the body.
\<close>

definition matchBlock :: "string \<Rightarrow> string \<Rightarrow> ((string \<times> string) \<times> string) option" where
  "matchBlock kw s =
     (case matchBlockHead kw s of
        None \<Rightarrow> None
      | Some (w, r) \<Rightarrow>
          (case splitAt (''{{/'' @ kw @ ''}}'') r of
             None \<Rightarrow> None
           | Some (body, rest) \<Rightarrow> Some ((w, body), rest)))"

text \<open>
  \<^verbatim>\<open>\{\{#if\s+(\w+)\}\}([\s\S]*?)\{\{else\}\}([\s\S]*?)\{\{\/if\}\}\<close>: the head, the
  shortest text up to \<^verbatim>\<open>{{else}}\<close>, the shortest text up to \<^verbatim>\<open>{{/if}}\<close>. If no closing
  tag follows the first \<^verbatim>\<open>{{else}}\<close>, none follows a later one either.
\<close>

definition matchIfElse :: "string \<Rightarrow> ((string \<times> string \<times> string) \<times> string) option" where
  "matchIfElse s =
     (case matchBlockHead ''if'' s of
        None \<Rightarrow> None
      | Some (w, r) \<Rightarrow>
          (case splitAt ''{{else}}'' r of
             None \<Rightarrow> None
           | Some (ifContent, r') \<Rightarrow>
               (case splitAt ''{{/if}}'' r' of
                  None \<Rightarrow> None
                | Some (elseContent, rest) \<Rightarrow> Some ((w, ifContent, elseContent), rest))))"

text \<open>
  \<^verbatim>\<open>/\{\{(\w+)(?:\s+([^}]+))?\}\}/\<close>: two opening braces and a word; then either the two
  closing braces at once, or white space and a text without closing brace, up to two closing
  braces. The white space is taken as long as possible, and gives its last character back when
  nothing else is left for the argument text.
\<close>

definition matchHelper :: "string \<Rightarrow> ((string \<times> string option) \<times> string) option" where
  "matchHelper s =
     (if startsWith ''{{'' s then
        (let r = drop 2 s; w = takeWhile isWordChar r; r1 = dropWhile isWordChar r in
         if w = [] then None
         else if startsWith ''}}'' r1 then Some ((w, None), drop 2 r1)
         else
           (let ws = takeWhile isSpace r1; r2 = dropWhile isSpace r1;
                body = takeWhile (\<lambda>c. c \<noteq> CHR ''}'') r2;
                r3 = dropWhile (\<lambda>c. c \<noteq> CHR ''}'') r2 in
            if ws = [] \<or> \<not> startsWith ''}}'' r3 then None
            else if body \<noteq> [] then Some ((w, Some body), drop 2 r3)
            else if 2 \<le> length ws then Some ((w, Some [last ws]), drop 2 r3)
            else None))
      else None)"

text \<open>\<^verbatim>\<open>s.split(/\s+/)\<close>.\<close>

function splitWs :: "string \<Rightarrow> string list" where
  "splitWs s =
     (let tok = takeWhile (\<lambda>c. \<not> isSpace c) s; r = dropWhile (\<lambda>c. \<not> isSpace c) s in
      if r = [] then [tok] else tok # splitWs (dropWhile isSpace r))"
  by pat_completeness auto
termination
proof (relation "measure length")
  show "wf (measure length)" by simp
next
  fix s :: string and tok r
  assume r: "r = dropWhile (\<lambda>c. \<not> isSpace c) s" and ne: "r \<noteq> []"
  from r ne have "isSpace (hd r)"
    using hd_dropWhile [of "\<lambda>c. \<not> isSpace c" s] by auto
  with ne have "length (dropWhile isSpace r) < length r"
    by (cases r) (auto simp: le_imp_less_Suc length_dropWhile_le)
  moreover have "length r \<le> length s"
    unfolding r by (rule length_dropWhile_le)
  ultimately show "(dropWhile isSpace r, s) \<in> measure length" by simp
qed

declare splitWs.simps [simp del]

subsection \<open>Helpers\<close>

text \<open>
  The local time that \<^verbatim>\<open>new Date()\<close> reads, as the getters give it
  (\<^verbatim>\<open>getMonth\<close> counts from 0). A helper is a function of the argument list and the
  variables; the model hands it the clock reading as well, since the built-in \<^verbatim>\<open>date\<close>
  helper reads the clock.
\<close>

record clock =
  clk_fullYear :: nat
  clk_month :: nat
  clk_date :: nat
  clk_hours :: nat
  clk_minutes :: nat
  clk_seconds :: nat

type_synonym TemplateHelper = "clock \<Rightarrow> jsval list \<Rightarrow> jsrecord \<Rightarrow> jsval result"

text \<open>\<^verbatim>\<open>args[i]\<close>: undefined past the end.\<close>

definition argAt :: "jsval list \<Rightarrow> nat \<Rightarrow> jsval" where
  "argAt args i = (if i < length args then args ! i else JUndefined)"

definition pad :: "nat \<Rightarrow> string" where
  "pad n = (let t = showNat n in if length t < 2 then CHR ''0'' # t else t)"

definition formatDate :: "clock \<Rightarrow> string \<Rightarrow> string" where
  "formatDate date format =
     replaceFirstStr ''ss'' (pad (clk_seconds date))
       (replaceFirstStr ''mm'' (pad (clk_minutes date))
         (replaceFirstStr ''HH'' (pad (clk_hours date))
           (replaceFirstStr ''DD'' (pad (clk_date date))
             (replaceFirstStr ''MM'' (pad (clk_month date + 1))
               (replaceFirstStr ''YYYY'' (showNat (clk_fullYear date)) format)))))"

text \<open>
  Case conversion of one code unit. Three code units below 256 have an upper case outside
  that range (micro sign, sharp s, y with diaeresis).
\<close>

definition lowerChar :: "char \<Rightarrow> char" where
  "lowerChar c =
     (let n = (of_char c :: nat) in
      if (65 \<le> n \<and> n \<le> 90) \<or> (192 \<le> n \<and> n \<le> 222 \<and> n \<noteq> 215) then char_of (n + 32) else c)"

definition upperChar :: "char \<Rightarrow> char result" where
  "upperChar c =
     (let n = (of_char c :: nat) in
      if n = 181 \<or> n = 223 \<or> n = 255 then Inl Unmodelled
      else if (97 \<le> n \<and> n \<le> 122) \<or> (224 \<le> n \<and> n \<le> 254 \<and> n \<noteq> 247) then Inr (char_of (n - 32))
      else Inr c)"

definition toLowerCase :: "string \<Rightarrow> string" where
  "toLowerCase s = map lowerChar s"

definition toUpperCase :: "string \<Rightarrow> string result" where
  "toUpperCase s = mapE upperChar s"

text \<open>The element texts of \<^verbatim>\<open>arr.join(sep)\<close>.\<close>

definition elementStr :: "jsval \<Rightarrow> string result" where
  "elementStr x = (if x = JUndefined \<or> x = JNull then Inr [] else toStr x)"

text \<open>\<^verbatim>\<open>str.slice(0, len)\<close>: a negative \<open>len\<close> counts from the end.\<close>

definition sliceTo :: "string \<Rightarrow> int \<Rightarrow> string" where
  "sliceTo s len = (if 0 \<le> len then take (nat len) s else take (length s - nat (- len)) s)"

text \<open>\<^verbatim>\<open>.replace(/[^a-z0-9]+/g, '-')\<close>: every run of other characters becomes one hyphen.\<close>

definition isSlugChar :: "char \<Rightarrow> bool" where
  "isSlugChar c \<longleftrightarrow> c \<in> set ''abcdefghijklmnopqrstuvwxyz0123456789''"

fun collapseRuns :: "string \<Rightarrow> string" where
  "collapseRuns [] = []"
| "collapseRuns [c] = (if isSlugChar c then [c] else ''-'')"
| "collapseRuns (c # d # r) =
     (if isSlugChar c then c # collapseRuns (d # r)
      else if isSlugChar d then CHR ''-'' # collapseRuns (d # r)
      else collapseRuns (d # r))"

text \<open>\<^verbatim>\<open>.replace(/^-|-$/g, '')\<close>: one hyphen off the front, then one off the end.\<close>

definition stripHyphens :: "string \<Rightarrow> string" where
  "stripHyphens s =
     (let t = (if s \<noteq> [] \<and> hd s = CHR ''-'' then tl s else s) in
      if t \<noteq> [] \<and> last t = CHR ''-'' then butlast t else t)"

definition dateHelper :: TemplateHelper where
  "dateHelper now args variables =
     (let a0 = argAt args 0 in
      if truthy a0 then
        (case a0 of JStr format \<Rightarrow> Inr (JStr (formatDate now format)) | _ \<Rightarrow> Inl TypeError)
      else Inr (JStr (formatDate now ''YYYY-MM-DD'')))"

definition uppercaseHelper :: TemplateHelper where
  "uppercaseHelper now args variables =
     bindE (toStr (orElse (argAt args 0) (JStr [])))
       (\<lambda>str. bindE (toUpperCase str) (\<lambda>u. Inr (JStr u)))"

definition lowercaseHelper :: TemplateHelper where
  "lowercaseHelper now args variables =
     bindE (toStr (orElse (argAt args 0) (JStr []))) (\<lambda>str. Inr (JStr (toLowerCase str)))"

definition capitalizeHelper :: TemplateHelper where
  "capitalizeHelper now args variables =
     bindE (toStr (orElse (argAt args 0) (JStr [])))
       (\<lambda>str. bindE (toUpperCase (take 1 str)) (\<lambda>u. Inr (JStr (u @ drop 1 str))))"

definition joinHelper :: TemplateHelper where
  "joinHelper now args variables =
     (let arr = argAt args 0 in
      bindE (toStr (orElse (argAt args 1) (JStr '', '')))
        (\<lambda>separator.
           case arr of
             JArr xs \<Rightarrow> bindE (mapE elementStr xs) (\<lambda>ss. Inr (JStr (joinWith separator ss)))
           | _ \<Rightarrow> bindE (toStr arr) (\<lambda>t. Inr (JStr t))))"

definition defaultHelper :: TemplateHelper where
  "defaultHelper now args variables =
     (let a0 = argAt args 0 in
      Inr (if a0 \<noteq> JUndefined \<and> a0 \<noteq> JNull \<and> a0 \<noteq> JStr [] then a0 else argAt args 1))"

definition lengthHelper :: TemplateHelper where
  "lengthHelper now args variables =
     (case argAt args 0 of
        JArr xs \<Rightarrow> Inr (JNum (int (length xs)))
      | JStr t \<Rightarrow> Inr (JNum (int (length t)))
      | _ \<Rightarrow> Inr (JNum 0))"

definition truncateHelper :: TemplateHelper where
  "truncateHelper now args variables =
     bindE (toStr (orElse (argAt args 0) (JStr [])))
       (\<lambda>str. bindE (toNumber (argAt args 1))
          (\<lambda>n. let len = (case n of None \<Rightarrow> 100 | Some k \<Rightarrow> if k = 0 then 100 else k) in
                if int (length str) \<le> len then Inr (JStr str)
                else Inr (JStr (sliceTo str len @ ''...''))))"

definition slugHelper :: TemplateHelper where
  "slugHelper now args variables =
     bindE (toStr (orElse (argAt args 0) (JStr [])))
       (\<lambda>str. Inr (JStr (stripHyphens (collapseRuns (toLowerCase str)))))"

subsection \<open>The engine\<close>

datatype 'a optional = Absent | PresentUndefined | Present 'a

text \<open>
  An optional property of an object is absent, present with the value undefined, or present
  with a value. Reading it gives undefined in the first two cases; a spread
  \<^verbatim>\<open>{...a, ...b}\<close> takes the property from \<open>b\<close> unless it is absent there.
\<close>

definition spreadProp :: "'a optional \<Rightarrow> 'a optional \<Rightarrow> 'a optional" where
  "spreadProp a b = (if b = Absent then a else b)"

record SectionCondition =
  cond_variable :: string
  cond_operator :: string
  cond_value :: "jsval option"

datatype TemplateSection =
  TemplateSection
    (sec_id: string)
    (sec_title: string)
    (sec_content: string)
    (sec_condition: "SectionCondition optional")
    (sec_sections: "TemplateSection list optional")
    (sec_collapsible: "bool optional")
    (sec_order: "int optional")
    (sec_prompt: "string optional")

record TemplateVariable =
  var_name :: string
  var_label :: string
  var_type :: string
  var_default :: "jsval option"
  var_required :: "bool optional"
  var_description :: "string optional"
  var_options :: "(string \<times> string) list optional"
  var_pattern :: "string optional"
  var_min :: "int optional"
  var_max :: "int optional"

record TemplateMeta =
  meta_id :: string
  meta_name :: string
  meta_description :: string
  meta_version :: string
  meta_author :: "string optional"
  meta_category :: string
  meta_scope :: string
  meta_audience :: "string optional"
  meta_tags :: "string list optional"
  meta_license :: "string optional"

record TemplatePrompt =
  prompt_id :: string
  prompt_section :: string
  prompt_system :: "string optional"
  prompt_user :: string
  prompt_model :: "string optional"
  prompt_temperature :: "int optional"
  prompt_maxTokens :: "int optional"

record CustomTemplate =
  tpl_meta :: TemplateMeta
  tpl_variables :: "TemplateVariable list"
  tpl_sections :: "TemplateSection list"
  tpl_extends :: "string optional"
  tpl_prompts :: "TemplatePrompt list optional"

text \<open>
  Of a context the engine reads the variables only; of a compiled section it writes the id,
  the title, the content and, where the section has them, the nested sections.
\<close>

record TemplateContext =
  ctx_variables :: jsrecord

datatype CompiledSection =
  CompiledSection
    (csec_id: string)
    (csec_title: string)
    (csec_content: string)
    (csec_sections: "CompiledSection list optional")

record CompiledTemplate =
  ct_template :: CustomTemplate
  ct_sections :: "CompiledSection list"
  ct_variables :: jsrecord

record TemplateEngine =
  templates :: "string \<Rightarrow> CustomTemplate option"
  helpers :: "string \<Rightarrow> TemplateHelper option"

definition registerTemplate :: "TemplateEngine \<Rightarrow> CustomTemplate \<Rightarrow> TemplateEngine" where
  "registerTemplate eng template =
     eng\<lparr>templates := (templates eng)(meta_id (tpl_meta template) \<mapsto> template)\<rparr>"

definition getTemplate :: "TemplateEngine \<Rightarrow> string \<Rightarrow> CustomTemplate option" where
  "getTemplate eng i = templates eng i"

definition registerHelper :: "TemplateEngine \<Rightarrow> string \<Rightarrow> TemplateHelper \<Rightarrow> TemplateEngine" where
  "registerHelper eng name helper = eng\<lparr>helpers := (helpers eng)(name \<mapsto> helper)\<rparr>"

definition registerDefaultHelpers :: "TemplateEngine \<Rightarrow> TemplateEngine" where
  "registerDefaultHelpers eng =
     foldl (\<lambda>e (name, helper). registerHelper e name helper) eng
       [(''date'', dateHelper),
        (''uppercase'', uppercaseHelper),
        (''lowercase'', lowercaseHelper),
        (''capitalize'', capitalizeHelper),
        (''join'', joinHelper),
        (''default'', defaultHelper),
        (''length'', lengthHelper),
        (''truncate'', truncateHelper),
        (''slug'', slugHelper)]"

text \<open>The constructor: no template, the default helpers.\<close>

definition createTemplateEngine :: TemplateEngine where
  "createTemplateEngine =
     registerDefaultHelpers \<lparr>templates = (\<lambda>_. None), helpers = (\<lambda>_. None)\<rparr>"

subsection \<open>The four passes of interpolate\<close>

text \<open>Pass 1, plain substitution: the callback of \<^verbatim>\<open>text.replace(/\{\{(\w+)\}\}/g, ...)\<close>.\<close>

definition substituteVariable :: "jsrecord \<Rightarrow> string \<Rightarrow> string \<Rightarrow> string result" where
  "substituteVariable variables matched name =
     (let v = getProp variables name in
      if v = JUndefined then Inr (''{{'' @ name @ ''}}'') else toStr v)"

text \<open>The test of the conditional blocks: zero counts as true.\<close>

definition isTruthy :: "jsval \<Rightarrow> bool" where
  "isTruthy v \<longleftrightarrow> v \<noteq> JUndefined \<and> v \<noteq> JNull \<and> v \<noteq> JBool False \<and> v \<noteq> JStr []"

definition processConditionalBlocks :: "string \<Rightarrow> jsrecord \<Rightarrow> string result" where
  "processConditionalBlocks text variables =
     bindE (replaceAllFn matchIfElse
              (\<lambda>matched (varName, ifContent, elseContent).
                 Inr (if isTruthy (getProp variables varName) then ifContent else elseContent))
              text)
       (\<lambda>r1. bindE (replaceAllFn (matchBlock ''if'')
                      (\<lambda>matched (varName, content).
                         Inr (if isTruthy (getProp variables varName) then content else []))
                      r1)
          (\<lambda>r2. replaceAllFn (matchBlock ''unless'')
                   (\<lambda>matched (varName, content).
                      Inr (if \<not> isTruthy (getProp variables varName) then content else []))
                   r2))"

text \<open>
  \<^verbatim>\<open>new RegExp(`\\{\\{${key}\\}\\}`, 'g')\<close> is the literal \<^verbatim>\<open>{{key}}\<close> when the key has no
  character that regular expression syntax reads specially.
\<close>

definition isLiteralKey :: "string \<Rightarrow> bool" where
  "isLiteralKey key \<longleftrightarrow>
     list_all (\<lambda>c. c \<notin> set (CHR 0x5C # ''^$.*+?()[]{}|'')) key"

text \<open>
  \<^verbatim>\<open>Object.entries(item)\<close> for a value with \<^verbatim>\<open>typeof item === 'object'\<close> that is not
  null: the properties of a record, the indexed elements of an array.
\<close>

definition objectEntries :: "jsval \<Rightarrow> (string \<times> jsval) list option" where
  "objectEntries item =
     (case item of
        JObj kvs \<Rightarrow> Some kvs
      | JArr xs \<Rightarrow> Some (zip (map showNat [0..<length xs]) xs)
      | _ \<Rightarrow> None)"

fun replaceEntries :: "(string \<times> jsval) list \<Rightarrow> string \<Rightarrow> string result" where
  "replaceEntries [] itemContent = Inr itemContent"
| "replaceEntries ((key, val) # kvs) itemContent =
     (if \<not> isLiteralKey key then Inl Unmodelled
      else (case toStr val of
              Inl e \<Rightarrow> Inl e
            | Inr t \<Rightarrow> replaceEntries kvs (replaceAllStr (''{{'' @ key @ ''}}'') t [] itemContent)))"

text \<open>The body of one iteration: the callback of \<^verbatim>\<open>value.map\<close> in processLoopBlocks.\<close>

definition eachIteration :: "string \<Rightarrow> nat \<Rightarrow> jsval \<Rightarrow> nat \<Rightarrow> string result" where
  "eachIteration content len item index =
     bindE (toStr item)
       (\<lambda>t. let c1 = replaceAllStr ''{{this}}'' t [] content;
                 c2 = replaceAllStr ''{{@index}}'' (showNat index) [] c1;
                 c3 = replaceAllStr ''{{@first}}'' (if index = 0 then ''true'' else ''false'') [] c2;
                 c4 = replaceAllStr ''{{@last}}''
                        (if int index = int len - 1 then ''true'' else ''false'') [] c3
             in (case objectEntries item of
                   None \<Rightarrow> Inr c4
                 | Some kvs \<Rightarrow> replaceEntries kvs c4))"

definition processLoopBlocks :: "string \<Rightarrow> jsrecord \<Rightarrow> string result" where
  "processLoopBlocks text variables =
     replaceAllFn (matchBlock ''each'')
       (\<lambda>matched (varName, content).
          case getProp variables varName of
            JArr items \<Rightarrow>
              bindE (mapE (\<lambda>(item, index). eachIteration content (length items) item index)
                       (zip items [0..<length items]))
                (\<lambda>parts. Inr (concat parts))
          | _ \<Rightarrow> Inr [])
       text"

text \<open>One argument token of a helper call.\<close>

definition resolveArg :: "jsrecord \<Rightarrow> string \<Rightarrow> jsval result" where
  "resolveArg variables arg =
     (if getProp variables arg \<noteq> JUndefined then Inr (getProp variables arg)
      else if startsWith [CHR 0x22] arg \<and> endsWith [CHR 0x22] arg then Inr (JStr (butlast (tl arg)))
      else if startsWith [CHR 0x27] arg \<and> endsWith [CHR 0x27] arg then Inr (JStr (butlast (tl arg)))
      else (case numberOfString arg of
              Inl e \<Rightarrow> Inl e
            | Inr (Some n) \<Rightarrow> Inr (JNum n)
            | Inr None \<Rightarrow> Inr (JStr arg)))"

definition processHelperCalls ::
  "TemplateEngine \<Rightarrow> clock \<Rightarrow> string \<Rightarrow> jsrecord \<Rightarrow> string result" where
  "processHelperCalls eng now text variables =
     replaceAllFn matchHelper
       (\<lambda>matched (helperName, argsString).
          case helpers eng helperName of
            None \<Rightarrow> Inr matched
          | Some helper \<Rightarrow>
              bindE (case argsString of
                       None \<Rightarrow> Inr []
                     | Some a \<Rightarrow> mapE (resolveArg variables) (splitWs a))
                (\<lambda>args. bindE (helper now args variables) toStr))
       text"

definition interpolate :: "TemplateEngine \<Rightarrow> clock \<Rightarrow> string \<Rightarrow> jsrecord \<Rightarrow> string result" where
  "interpolate eng now text variables =
     bindE (replaceAllFn matchVariable (substituteVariable variables) text)
       (\<lambda>r1. bindE (processConditionalBlocks r1 variables)
          (\<lambda>r2. bindE (processLoopBlocks r2 variables)
             (\<lambda>r3. processHelperCalls eng now r3 variables)))"

section \<open>Compilation\<close>

subsection \<open>Inheritance\<close>

text \<open>A property read where the source tests it for truthiness or falls back with \<^verbatim>\<open>||\<close>.\<close>

definition valueOr :: "'a \<Rightarrow> 'a optional \<Rightarrow> 'a" where
  "valueOr d p = (case p of Present v \<Rightarrow> v | _ \<Rightarrow> d)"

definition mergeVariable :: "TemplateVariable option \<Rightarrow> TemplateVariable \<Rightarrow> TemplateVariable" where
  "mergeVariable existing v =
     (case existing of
        None \<Rightarrow> v
      | Some p \<Rightarrow>
          \<lparr>var_name = var_name v,
           var_label = var_label v,
           var_type = var_type v,
           var_default = (case var_default v of None \<Rightarrow> var_default p | Some d \<Rightarrow> Some d),
           var_required = spreadProp (var_required p) (var_required v),
           var_description = spreadProp (var_description p) (var_description v),
           var_options = spreadProp (var_options p) (var_options v),
           var_pattern = spreadProp (var_pattern p) (var_pattern v),
           var_min = spreadProp (var_min p) (var_min v),
           var_max = spreadProp (var_max p) (var_max v)\<rparr>)"

definition mergeVariables ::
  "TemplateVariable list \<Rightarrow> TemplateVariable list \<Rightarrow> TemplateVariable list" where
  "mergeVariables parent child =
     (let seeded = foldl (\<lambda>merged v. mapSet merged (var_name v) v) [] parent;
          merged = foldl (\<lambda>merged v.
                      mapSet merged (var_name v) (mergeVariable (map_of merged (var_name v)) v))
                    seeded child
      in map snd merged)"

text \<open>\<^verbatim>\<open>(a.order || 0)\<close>\<close>

definition orderKey :: "TemplateSection \<Rightarrow> int" where
  "orderKey s = valueOr 0 (sec_order s)"

text \<open>
  \<^verbatim>\<open>{...existing, ...s, sections: ...}\<close>: the fields of the child where it has them, and
  the nested list given.
\<close>

definition mergeSection ::
  "TemplateSection \<Rightarrow> TemplateSection \<Rightarrow> TemplateSection list optional \<Rightarrow> TemplateSection" where
  "mergeSection existing s nested =
     TemplateSection (sec_id s) (sec_title s) (sec_content s)
       (spreadProp (sec_condition existing) (sec_condition s))
       nested
       (spreadProp (sec_collapsible existing) (sec_collapsible s))
       (spreadProp (sec_order existing) (sec_order s))
       (spreadProp (sec_prompt existing) (sec_prompt s))"

text \<open>What \<^verbatim>\<open>existing.sections\<close> reads as, stored under a key that is always written.\<close>

definition readSections :: "TemplateSection \<Rightarrow> TemplateSection list optional" where
  "readSections existing =
     (case sec_sections existing of Present es \<Rightarrow> Present es | _ \<Rightarrow> PresentUndefined)"

text \<open>
  mergeSections: the table \<open>merged\<close> is seeded with the parent sections, the child sections
  are set into it one by one (mergeChildren is that loop), and its values are sorted by order.
  \<^verbatim>\<open>Array.prototype.sort\<close> is stable, as \<^const>\<open>sort_key\<close> is.
\<close>

fun mergeSections :: "TemplateSection list \<Rightarrow> TemplateSection list \<Rightarrow> TemplateSection list"
  and mergeChildren ::
    "(string \<times> TemplateSection) list \<Rightarrow> TemplateSection list \<Rightarrow> (string \<times> TemplateSection) list"
where
  "mergeSections parent child =
     sort_key orderKey
       (map snd (mergeChildren (foldl (\<lambda>merged s. mapSet merged (sec_id s) s) [] parent) child))"
| "mergeChildren merged [] = merged"
| "mergeChildren merged (TemplateSection i t c cond secs col ord p # rest) =
     mergeChildren
       (case map_of merged i of
          Some existing \<Rightarrow>
            mapSet merged i
              (mergeSection existing (TemplateSection i t c cond secs col ord p)
                 (case secs of
                    Present cs \<Rightarrow> Present (mergeSections (valueOr [] (sec_sections existing)) cs)
                  | _ \<Rightarrow> readSections existing))
        | None \<Rightarrow> mapSet merged i (TemplateSection i t c cond secs col ord p))
       rest"

text \<open>\<^verbatim>\<open>template.extends\<close> where it is truthy.\<close>

definition extendsOf :: "CustomTemplate \<Rightarrow> string option" where
  "extendsOf template =
     (case tpl_extends template of Present p \<Rightarrow> (if p = [] then None else Some p) | _ \<Rightarrow> None)"

definition mergeMeta :: "TemplateMeta \<Rightarrow> TemplateMeta \<Rightarrow> TemplateMeta" where
  "mergeMeta parent child =
     child\<lparr>meta_author := spreadProp (meta_author parent) (meta_author child),
           meta_audience := spreadProp (meta_audience parent) (meta_audience child),
           meta_tags := spreadProp (meta_tags parent) (meta_tags child),
           meta_license := spreadProp (meta_license parent) (meta_license child)\<rparr>"

text \<open>
  resolveInheritance recurses along \<^verbatim>\<open>extends\<close> and does not return on a cycle: \<open>None\<close>
  is the run that never returns.
\<close>

partial_function (option) resolveInheritance ::
  "TemplateEngine \<Rightarrow> CustomTemplate \<Rightarrow> CustomTemplate result option" where
  "resolveInheritance eng template =
     (case extendsOf template of
        None \<Rightarrow> Some (Inr template)
      | Some parentId \<Rightarrow>
          (case templates eng parentId of
             None \<Rightarrow> Some (Inl (ParentNotFound parentId))
           | Some parent \<Rightarrow>
               Option.bind (resolveInheritance eng parent)
                 (\<lambda>r. case r of
                         Inl e \<Rightarrow> Some (Inl e)
                       | Inr resolvedParent \<Rightarrow>
                           Some (Inr \<lparr>tpl_meta = mergeMeta (tpl_meta resolvedParent) (tpl_meta template),
                                      tpl_variables =
                                        mergeVariables (tpl_variables resolvedParent) (tpl_variables template),
                                      tpl_sections =
                                        mergeSections (tpl_sections resolvedParent) (tpl_sections template),
                                      tpl_extends = Absent,
                                      tpl_prompts =
                                        Present (valueOr [] (tpl_prompts resolvedParent)
                                                 @ valueOr [] (tpl_prompts template))\<rparr>))))"

subsection \<open>Variables\<close>

text \<open>The first loop of resolveVariables, over the definitions.\<close>

fun resolveDefinitions ::
  "TemplateVariable list \<Rightarrow> jsrecord \<Rightarrow> jsrecord \<Rightarrow> jsrecord result" where
  "resolveDefinitions [] provided resolved = Inr resolved"
| "resolveDefinitions (d # ds) provided resolved =
     (if getProp provided (var_name d) \<noteq> JUndefined then
        (case setProp resolved (var_name d) (getProp provided (var_name d)) of
           Inl e \<Rightarrow> Inl e
         | Inr r \<Rightarrow> resolveDefinitions ds provided r)
      else if var_default d \<noteq> None \<and> var_default d \<noteq> Some JUndefined then
        (case setProp resolved (var_name d) (the (var_default d)) of
           Inl e \<Rightarrow> Inl e
         | Inr r \<Rightarrow> resolveDefinitions ds provided r)
      else if var_required d = Present True then Inl (RequiredVariableMissing (var_name d))
      else resolveDefinitions ds provided resolved)"

text \<open>The second loop, over the entries of the provided values.\<close>

fun addExtras :: "(string \<times> jsval) list \<Rightarrow> jsrecord \<Rightarrow> jsrecord result" where
  "addExtras [] resolved = Inr resolved"
| "addExtras ((key, v) # kvs) resolved =
     (if getProp resolved key = JUndefined then
        (case setProp resolved key v of Inl e \<Rightarrow> Inl e | Inr r \<Rightarrow> addExtras kvs r)
      else addExtras kvs resolved)"

definition resolveVariables :: "TemplateVariable list \<Rightarrow> jsrecord \<Rightarrow> jsrecord result" where
  "resolveVariables definitions provided =
     bindE (resolveDefinitions definitions provided []) (addExtras provided)"

subsection \<open>Sections\<close>

definition evaluateCondition :: "SectionCondition \<Rightarrow> jsrecord \<Rightarrow> bool result" where
  "evaluateCondition condition variables =
     (let v = getProp variables (cond_variable condition);
          cv = (case cond_value condition of None \<Rightarrow> JUndefined | Some x \<Rightarrow> x);
          operator = cond_operator condition
      in
        if operator = ''equals'' then strictEq v cv
        else if operator = ''not_equals'' then bindE (strictEq v cv) (\<lambda>b. Inr (\<not> b))
        else if operator = ''contains'' then
          (case v of
             JArr xs \<Rightarrow> arrIncludes xs cv
           | JStr t \<Rightarrow> bindE (toStr cv) (\<lambda>u. Inr (includesStr t u))
           | _ \<Rightarrow> Inr False)
        else if operator = ''not_contains'' then
          (case v of
             JArr xs \<Rightarrow> bindE (arrIncludes xs cv) (\<lambda>b. Inr (\<not> b))
           | JStr t \<Rightarrow> bindE (toStr cv) (\<lambda>u. Inr (\<not> includesStr t u))
           | _ \<Rightarrow> Inr True)
        else if operator = ''greater_than'' then
          (case v of
             JNum n \<Rightarrow> bindE (toNumber cv) (\<lambda>m. Inr (case m of None \<Rightarrow> False | Some k \<Rightarrow> n > k))
           | _ \<Rightarrow> Inr False)
        else if operator = ''less_than'' then
          (case v of
             JNum n \<Rightarrow> bindE (toNumber cv) (\<lambda>m. Inr (case m of None \<Rightarrow> False | Some k \<Rightarrow> n < k))
           | _ \<Rightarrow> Inr False)
        else if operator = ''exists'' then Inr (v \<noteq> JUndefined \<and> v \<noteq> JNull \<and> v \<noteq> JStr [])
        else if operator = ''not_exists'' then Inr (v = JUndefined \<or> v = JNull \<or> v = JStr [])
        else Inr True)"

fun compileSections ::
  "TemplateEngine \<Rightarrow> clock \<Rightarrow> TemplateSection list \<Rightarrow> jsrecord \<Rightarrow> CompiledSection list result"
where
  "compileSections eng now [] variables = Inr []"
| "compileSections eng now (TemplateSection i t c cond secs col ord p # rest) variables =
     (case (case cond of Present cnd \<Rightarrow> evaluateCondition cnd variables | _ \<Rightarrow> Inr True) of
        Inl e \<Rightarrow> Inl e
      | Inr visible \<Rightarrow>
          if \<not> visible then compileSections eng now rest variables
          else
            (case interpolate eng now t variables of
               Inl e \<Rightarrow> Inl e
             | Inr title \<Rightarrow>
                 (case interpolate eng now c variables of
                    Inl e \<Rightarrow> Inl e
                  | Inr content \<Rightarrow>
                      (case (case secs of
                               Present cs \<Rightarrow>
                                 (case compileSections eng now cs variables of
                                    Inl e \<Rightarrow> Inl e
                                  | Inr k \<Rightarrow> Inr (Present k))
                             | _ \<Rightarrow> Inr Absent) of
                         Inl e \<Rightarrow> Inl e
                       | Inr nested \<Rightarrow>
                           (case compileSections eng now rest variables of
                              Inl e \<Rightarrow> Inl e
                            | Inr others \<Rightarrow> Inr (CompiledSection i title content nested # others))))))"

definition compile ::
  "TemplateEngine \<Rightarrow> clock \<Rightarrow> CustomTemplate \<Rightarrow> TemplateContext \<Rightarrow> CompiledTemplate result option"
where
  "compile eng now template context =
     Option.bind (resolveInheritance eng template)
       (\<lambda>r. Some (bindE r
          (\<lambda>resolvedTemplate.
             bindE (resolveVariables (tpl_variables resolvedTemplate) (ctx_variables context))
               (\<lambda>variables.
                  bindE (compileSections eng now (tpl_sections resolvedTemplate) variables)
                    (\<lambda>sections.
                       Inr \<lparr>ct_template = resolvedTemplate,
                            ct_sections = sections,
                            ct_variables = variables\<rparr>)))))"

section \<open>Rendering\<close>

fun renderSection :: "CompiledSection \<Rightarrow> nat \<Rightarrow> string list" where
  "renderSection (CompiledSection i title content secs) level =
     [replicate (min level 6) CHR ''#'' @ '' '' @ title, []]
     @ (if trim content \<noteq> [] then [trim content, []] else [])
     @ (case secs of
          Present children \<Rightarrow> concat (map (\<lambda>child. renderSection child (level + 1)) children)
        | _ \<Rightarrow> [])"

definition render :: "TemplateEngine \<Rightarrow> clock \<Rightarrow> CompiledTemplate \<Rightarrow> string result" where
  "render eng now compiled =
     bindE (interpolate eng now (meta_name (tpl_meta (ct_template compiled))) (ct_variables compiled))
       (\<lambda>name.
          Inr (joinWith [CHR 0x0A]
                 ([''# '' @ name, []]
                  @ concat (map (\<lambda>section. renderSection section 2) (ct_sections compiled)))))"

definition process ::
  "TemplateEngine \<Rightarrow> clock \<Rightarrow> CustomTemplate \<Rightarrow> TemplateContext \<Rightarrow> string result option" where
  "process eng now template context =
     Option.bind (compile eng now template context)
       (\<lambda>r. Some (bindE r (render eng now)))"

section \<open>Notions of the specification\<close>

text \<open>
  The name of a member that every plain object inherits from \<^verbatim>\<open>Object.prototype\<close>
  (\<^verbatim>\<open>constructor\<close>, \<^verbatim>\<open>toString\<close>, \<^verbatim>\<open>__proto__\<close> and so on).
\<close>

definition inheritedName :: "string \<Rightarrow> bool" where
  "inheritedName k \<longleftrightarrow> objectPrototype k \<noteq> JUndefined"

text \<open>
  A declared variable that is required, has no default and no caller-supplied value: its name
  is no key of the caller's mapping, or the mapping holds undefined under it.
\<close>

definition isMissing :: "jsrecord \<Rightarrow> TemplateVariable \<Rightarrow> bool" where
  "isMissing provided d \<longleftrightarrow>
     var_required d = Present True
     \<and> (var_default d = None \<or> var_default d = Some JUndefined)
     \<and> (map_of provided (var_name d) = None \<or> map_of provided (var_name d) = Some JUndefined)"

text \<open>
  The helper calls of a compilation. \<open>matchesOf\<close> lists the captures of the matches that a
  global replace visits in a text. The helper calls of a text are the names that the helper
  pattern captures in what the first three passes make of the text; those of a section list
  are the calls of the titles and contents of the sections that are not hidden by their
  condition; those of a compilation are the calls of the sections of the resolved template
  under the resolved variables.
\<close>

function matchesOf :: "(string \<Rightarrow> ('g \<times> string) option) \<Rightarrow> string \<Rightarrow> 'g list" where
  "matchesOf m [] = []"
| "matchesOf m (c # cs) =
     (case m (c # cs) of
        None \<Rightarrow> matchesOf m cs
      | Some (g, rest) \<Rightarrow> if length rest \<le> length cs then g # matchesOf m rest else [])"
  by pat_completeness auto
termination
  by (relation "measure (\<lambda>(m, s). length s)") auto

definition helperCalls :: "string \<Rightarrow> jsrecord \<Rightarrow> string list" where
  "helperCalls text variables =
     (case bindE (replaceAllFn matchVariable (substituteVariable variables) text)
             (\<lambda>r1. bindE (processConditionalBlocks r1 variables)
                (\<lambda>r2. processLoopBlocks r2 variables)) of
        Inl e \<Rightarrow> []
      | Inr r3 \<Rightarrow> map fst (matchesOf matchHelper r3))"

fun sectionCalls :: "TemplateSection list \<Rightarrow> jsrecord \<Rightarrow> string list" where
  "sectionCalls [] variables = []"
| "sectionCalls (TemplateSection i t c cond secs col ord p # rest) variables =
     (if (case cond of Present cnd \<Rightarrow> evaluateCondition cnd variables = Inr False | _ \<Rightarrow> False)
      then []
      else helperCalls t variables @ helperCalls c variables
           @ (case secs of Present cs \<Rightarrow> sectionCalls cs variables | _ \<Rightarrow> []))
     @ sectionCalls rest variables"

definition compileCalls :: "TemplateEngine \<Rightarrow> CustomTemplate \<Rightarrow> TemplateContext \<Rightarrow> string list" where
  "compileCalls eng template context =
     (case resolveInheritance eng template of
        Some (Inr resolvedTemplate) \<Rightarrow>
          (case resolveVariables (tpl_variables resolvedTemplate) (ctx_variables context) of
             Inl e \<Rightarrow> []
           | Inr variables \<Rightarrow> sectionCalls (tpl_sections resolvedTemplate) variables)
      | _ \<Rightarrow> [])"

text \<open>
  The helper registered under a name, if any, answers the same at two clock readings.
\<close>

definition steady :: "TemplateEngine \<Rightarrow> clock \<Rightarrow> clock \<Rightarrow> string \<Rightarrow> bool" where
  "steady eng now1 now2 name \<longleftrightarrow>
     (case helpers eng name of
        None \<Rightarrow> True
      | Some helper \<Rightarrow> \<forall>args variables. helper now1 args variables = helper now2 args variables)"

text \<open>
  The renderer as the specification words it: a heading of a given level, and the walk of the
  compiled tree by nesting depth, the sections of the template being at depth 1.
\<close>

definition heading :: "nat \<Rightarrow> string \<Rightarrow> string" where
  "heading level title = replicate level CHR ''#'' @ '' '' @ title"

fun walkSection :: "nat \<Rightarrow> CompiledSection \<Rightarrow> string list" where
  "walkSection depth (CompiledSection i title content secs) =
     [heading (min (depth + 1) 6) title, []]
     @ (if trim content = [] then [] else [trim content, []])
     @ (case secs of
          Present children \<Rightarrow> concat (map (walkSection (depth + 1)) children)
        | _ \<Rightarrow> [])"

text \<open>
  The merge of two section lists as the specification words it. The sort weight of a section
  is its \<^verbatim>\<open>order\<close>, a missing one counting as 0. A field of the merged section is the
  child's where the child has the field, and the parent's otherwise. The parent sections come
  first, each with the child section of the same id merged onto it field by field; the nested
  lists are merged by the same rule and sorted (a parent without a nested list counting as one
  with the empty list), and a child without a nested list leaves the parent's as it is. The
  child sections with a new id follow in the order of the child. In the sorting that follows,
  \<^const>\<open>sort_key\<close> keeps the sections of equal weight in the order of insertion.
\<close>

definition specOrder :: "TemplateSection \<Rightarrow> int" where
  "specOrder s = (case sec_order s of Present n \<Rightarrow> n | _ \<Rightarrow> 0)"

definition overriding :: "'a optional \<Rightarrow> 'a optional \<Rightarrow> 'a optional" where
  "overriding childField parentField =
     (case childField of Absent \<Rightarrow> parentField | PresentUndefined \<Rightarrow> PresentUndefined
      | Present v \<Rightarrow> Present v)"

fun specMerged :: "TemplateSection list \<Rightarrow> TemplateSection list \<Rightarrow> TemplateSection list"
  and specOnto :: "TemplateSection \<Rightarrow> TemplateSection list \<Rightarrow> TemplateSection"
where
  "specMerged parent child =
     map (\<lambda>p. specOnto p child) parent @ filter (\<lambda>c. sec_id c \<notin> sec_id ` set parent) child"
| "specOnto p [] = p"
| "specOnto p (TemplateSection i title content cond secs col ord prompt # rest) =
     (if i = sec_id p then
        TemplateSection i title content
          (overriding cond (sec_condition p))
          (case secs of
             Present ns \<Rightarrow>
               Present (sort_key specOrder
                          (specMerged (case sec_sections p of Present ps \<Rightarrow> ps | _ \<Rightarrow> []) ns))
           | _ \<Rightarrow> (case sec_sections p of Present ps \<Rightarrow> Present ps | _ \<Rightarrow> PresentUndefined))
          (overriding col (sec_collapsible p))
          (overriding ord (sec_order p))
          (overriding prompt (sec_prompt p))
      else specOnto p rest)"

text \<open>
  The invariant of the data model: the ids are unique among the siblings, at every level of
  nesting.
\<close>

fun siblingsDistinct :: "TemplateSection list \<Rightarrow> bool"
  and nestedDistinct :: "TemplateSection \<Rightarrow> bool"
where
  "siblingsDistinct ss \<longleftrightarrow> distinct (map sec_id ss) \<and> list_all nestedDistinct ss"
| "nestedDistinct (TemplateSection i title content cond secs col ord prompt) \<longleftrightarrow>
     (case secs of Present ns \<Rightarrow> siblingsDistinct ns | _ \<Rightarrow> True)"

text \<open>
  A bare word, as \<^verbatim>\<open>\w+\<close> reads it: one or more letters, digits or underscores.
\<close>

definition isWord :: "string \<Rightarrow> bool" where
  "isWord w \<longleftrightarrow> w \<noteq> [] \<and> list_all isWordChar w"

text \<open>
  A text that carries neither an opening brace nor a dollar: put in as a replacement it stands
  for itself, and no later pass reads it as a reference. A value is plain when \<^verbatim>\<open>String\<close>
  gives such a text, and an element of an array is plain when it is a plain value and, if it
  has entries, its keys are literal patterns and its fields plain values.
\<close>

definition plainText :: "string \<Rightarrow> bool" where
  "plainText t \<longleftrightarrow> CHR ''{'' \<notin> set t \<and> CHR ''$'' \<notin> set t"

definition plainValue :: "jsval \<Rightarrow> bool" where
  "plainValue v \<longleftrightarrow> (case toStr v of Inr t \<Rightarrow> plainText t | Inl e \<Rightarrow> False)"

definition textOf :: "jsval \<Rightarrow> string" where
  "textOf v = (case toStr v of Inr t \<Rightarrow> t | Inl e \<Rightarrow> [])"

definition plainItem :: "jsval \<Rightarrow> bool" where
  "plainItem item \<longleftrightarrow>
     plainValue item
     \<and> (case objectEntries item of
          None \<Rightarrow> True
        | Some kvs \<Rightarrow> list_all (\<lambda>(k, v). isLiteralKey k \<and> plainValue v) kvs)"

text \<open>
  A text of the interpolation language, cut into its parts. An item is a text without
  double-brace expression or a double-brace expression \<^verbatim>\<open>{{x}}\<close>; a piece is an item or an
  each block over a variable, whose body is a list of items.
\<close>

datatype item = Text string | Mark string

fun itemText :: "item \<Rightarrow> string" where
  "itemText (Text t) = t"
| "itemText (Mark x) = ''{{'' @ x @ ''}}''"

definition itemsText :: "item list \<Rightarrow> string" where
  "itemsText items = concat (map itemText items)"

definition eachBlock :: "string \<Rightarrow> string \<Rightarrow> string" where
  "eachBlock v body = ''{{#each '' @ v @ ''}}'' @ body @ ''{{/each}}''"

datatype piece = Flat item | Loop string "item list"

fun pieceText :: "piece \<Rightarrow> string" where
  "pieceText (Flat it) = itemText it"
| "pieceText (Loop v body) = eachBlock v (itemsText body)"

definition piecesText :: "piece list \<Rightarrow> string" where
  "piecesText ps = concat (map pieceText ps)"

text \<open>
  The variable that a mapping holds under a name: none when the name is no key of the mapping,
  and none when the key holds undefined.
\<close>

definition held :: "jsrecord \<Rightarrow> string \<Rightarrow> jsval option" where
  "held variables x =
     (case map_of variables x of
        Some v \<Rightarrow> (if v = JUndefined then None else Some v)
      | None \<Rightarrow> None)"

text \<open>
  Plain substitution, item by item: a reference to a bare word that the mapping holds becomes
  the text of the variable; every other item stays.
\<close>

fun substituted :: "jsrecord \<Rightarrow> item \<Rightarrow> item" where
  "substituted variables (Text t) = Text t"
| "substituted variables (Mark x) =
     (if isWord x then (case held variables x of Some v \<Rightarrow> Text (textOf v) | None \<Rightarrow> Mark x)
      else Mark x)"

text \<open>
  The field of an element under a name: the property of a keyed record (for an array, the
  element at an index).
\<close>

definition fieldOf :: "string \<Rightarrow> jsval \<Rightarrow> jsval option" where
  "fieldOf k e = (case objectEntries e of Some kvs \<Rightarrow> map_of kvs k | None \<Rightarrow> None)"

text \<open>
  The loop pass on one item of the body, in the iteration at position \<open>i\<close> over the element
  \<open>e\<close> of an array of \<open>n\<close> elements: \<^verbatim>\<open>this\<close> is the text of the element,
  \<^verbatim>\<open>@index\<close> the position from 0, \<^verbatim>\<open>@first\<close> and \<^verbatim>\<open>@last\<close> the texts true or false
  for the first and the last element, and any other name that is a field of the element is the
  text of that field; what is none of these stays. An iteration is the body after plain
  substitution and the loop pass.
\<close>

fun loopItem :: "nat \<Rightarrow> jsval \<Rightarrow> nat \<Rightarrow> item \<Rightarrow> item" where
  "loopItem n e i (Text t) = Text t"
| "loopItem n e i (Mark x) =
     (if x = ''this'' then Text (textOf e)
      else if x = ''@index'' then Text (showNat i)
      else if x = ''@first'' then Text (if i = 0 then ''true'' else ''false'')
      else if x = ''@last'' then Text (if Suc i = n then ''true'' else ''false'')
      else (case fieldOf x e of Some v \<Rightarrow> Text (textOf v) | None \<Rightarrow> Mark x))"

definition iteration :: "jsrecord \<Rightarrow> nat \<Rightarrow> jsval \<Rightarrow> nat \<Rightarrow> item list \<Rightarrow> item list" where
  "iteration variables n e i body = map (\<lambda>it. loopItem n e i (substituted variables it)) body"

text \<open>
  The helper pass on one item that the earlier passes have left: a reference to a bare word
  that names a registered helper is a call of that helper without arguments and becomes the
  text of its result; a reference to any other word stays in its literal form. \<open>joined\<close> is
  the text of a list of items after the helper pass, or the first error of a helper call.
\<close>

fun called :: "TemplateEngine \<Rightarrow> clock \<Rightarrow> jsrecord \<Rightarrow> item \<Rightarrow> string result" where
  "called eng now variables (Text t) = Inr t"
| "called eng now variables (Mark x) =
     (case helpers eng x of
        None \<Rightarrow> Inr (''{{'' @ x @ ''}}'')
      | Some helper \<Rightarrow> bindE (helper now [] variables) toStr)"

definition joined :: "TemplateEngine \<Rightarrow> clock \<Rightarrow> jsrecord \<Rightarrow> item list \<Rightarrow> string result" where
  "joined eng now variables items =
     bindE (mapE (called eng now variables) items) (\<lambda>parts. Inr (concat parts))"

text \<open>
  The texts that the theorems on interpolation speak of. A plain reference is a reference to
  a bare word that is not the name of an inherited member and whose variable, if the mapping
  holds one, has a text without opening brace. A simple text is made of texts without opening
  brace, plain references, and each blocks over a bare word whose body is made of texts
  without opening brace, plain references and the markers \<^verbatim>\<open>@index\<close>, \<^verbatim>\<open>@first\<close>,
  \<^verbatim>\<open>@last\<close>, the elements of the array being plain.
\<close>

definition plainRef :: "jsrecord \<Rightarrow> string \<Rightarrow> bool" where
  "plainRef variables x \<longleftrightarrow>
     isWord x \<and> \<not> inheritedName x
     \<and> (case held variables x of
          Some v \<Rightarrow> (case toStr v of Inr t \<Rightarrow> CHR ''{'' \<notin> set t | Inl e \<Rightarrow> False)
        | None \<Rightarrow> True)"

definition isMarker :: "string \<Rightarrow> bool" where
  "isMarker x \<longleftrightarrow> x = ''@index'' \<or> x = ''@first'' \<or> x = ''@last''"

fun simpleItem :: "jsrecord \<Rightarrow> item \<Rightarrow> bool" where
  "simpleItem variables (Text t) \<longleftrightarrow> CHR ''{'' \<notin> set t"
| "simpleItem variables (Mark x) \<longleftrightarrow> plainRef variables x"

fun simpleBodyItem :: "jsrecord \<Rightarrow> item \<Rightarrow> bool" where
  "simpleBodyItem variables (Text t) \<longleftrightarrow> CHR ''{'' \<notin> set t"
| "simpleBodyItem variables (Mark x) \<longleftrightarrow> isMarker x \<or> plainRef variables x"

fun simplePiece :: "jsrecord \<Rightarrow> piece \<Rightarrow> bool" where
  "simplePiece variables (Flat it) \<longleftrightarrow> simpleItem variables it"
| "simplePiece variables (Loop v body) \<longleftrightarrow>
     isWord v \<and> list_all (simpleBodyItem variables) body
     \<and> (case map_of variables v of Some (JArr es) \<Rightarrow> list_all plainItem es | _ \<Rightarrow> True)"

section \<open>Auxiliary notions of the proofs\<close>

text \<open>A matcher that finds a match only where the text opens with two braces.\<close>

definition opensWithBraces :: "(string \<Rightarrow> 'g option) \<Rightarrow> bool" where
  "opensWithBraces m \<longleftrightarrow> (\<forall>s. \<not> startsWith ''{{'' s \<longrightarrow> m s = None)"

text \<open>
  Items without opening brace, and items without closing brace in their expression. What a
  scan makes of the expression \<open>x\<close>, whatever follows it: the matcher finds nothing there and
  the expression stays, or it matches the expression alone and the callback answers \<open>r\<close>.
\<close>

fun braceFree :: "item \<Rightarrow> bool" where
  "braceFree (Text t) \<longleftrightarrow> CHR ''{'' \<notin> set t"
| "braceFree (Mark x) \<longleftrightarrow> CHR ''{'' \<notin> set x"

fun closeFree :: "item \<Rightarrow> bool" where
  "closeFree (Text t) \<longleftrightarrow> True"
| "closeFree (Mark x) \<longleftrightarrow> CHR ''}'' \<notin> set x"

definition marks :: "(string \<Rightarrow> ('g \<times> string) option) \<Rightarrow> (string \<Rightarrow> 'g \<Rightarrow> string result)
    \<Rightarrow> string \<Rightarrow> string result \<Rightarrow> bool" where
  "marks m f x r \<longleftrightarrow>
     (\<forall>s. (m (''{{'' @ x @ ''}}'' @ s) = None \<and> r = Inr (''{{'' @ x @ ''}}''))
          \<or> (\<exists>g. m (''{{'' @ x @ ''}}'' @ s) = Some (g, s) \<and> f (''{{'' @ x @ ''}}'') g = r))"

fun scanItem :: "(string \<Rightarrow> string result) \<Rightarrow> item \<Rightarrow> string result" where
  "scanItem act (Text t) = Inr t"
| "scanItem act (Mark x) = act x"

text \<open>The entries of an element applied to an item.\<close>

fun entryItem :: "(string \<times> jsval) list \<Rightarrow> item \<Rightarrow> item" where
  "entryItem kvs (Text t) = Text t"
| "entryItem kvs (Mark x) = (case map_of kvs x of Some v \<Rightarrow> Text (textOf v) | None \<Rightarrow> Mark x)"

text \<open>
  A piece as a list of items, the head and the end of an each block being expressions like any
  other; the expressions that plain substitution passes by or replaces by a text without brace;
  the expressions that the conditional pass does not take for the head of a block.
\<close>

fun flatten :: "piece \<Rightarrow> item list" where
  "flatten (Flat it) = [it]"
| "flatten (Loop v body) = Mark (''#each '' @ v) # body @ [Mark ''/each'']"

definition passable :: "jsrecord \<Rightarrow> string \<Rightarrow> bool" where
  "passable variables x \<longleftrightarrow>
     CHR ''{'' \<notin> set x \<and> (plainRef variables x \<or> (x \<noteq> [] \<and> \<not> isWordChar (hd x)))"

definition quiet :: "string \<Rightarrow> bool" where
  "quiet x \<longleftrightarrow> x \<noteq> [] \<and> (hd x \<noteq> CHR ''#'' \<or> (\<exists>v. x = ''#each '' @ v))"

text \<open>
  A piece after plain substitution, the items that the loop pass makes of it, and both in one;
  the pieces that the loop pass can read; the expressions of a body.
\<close>

fun subPiece :: "jsrecord \<Rightarrow> piece \<Rightarrow> piece" where
  "subPiece variables (Flat it) = Flat (substituted variables it)"
| "subPiece variables (Loop v body) = Loop v (map (substituted variables) body)"

fun looped :: "jsrecord \<Rightarrow> piece \<Rightarrow> item list" where
  "looped variables (Flat it) = [it]"
| "looped variables (Loop v body) =
     (case map_of variables v of
        Some (JArr es) \<Rightarrow>
          concat (map (\<lambda>(e, i). map (loopItem (length es) e i) body) (zip es [0..<length es]))
      | _ \<Rightarrow> [])"

definition expand :: "jsrecord \<Rightarrow> piece \<Rightarrow> item list" where
  "expand variables p = looped variables (subPiece variables p)"

fun loopable :: "jsrecord \<Rightarrow> piece \<Rightarrow> bool" where
  "loopable variables (Flat (Text t)) \<longleftrightarrow> CHR ''{'' \<notin> set t"
| "loopable variables (Flat (Mark x)) \<longleftrightarrow> CHR ''{'' \<notin> set x \<and> x \<noteq> [] \<and> hd x \<noteq> CHR ''#''"
| "loopable variables (Loop v body) \<longleftrightarrow>
     isWord v \<and> list_all braceFree body \<and> list_all closeFree body
     \<and> (\<forall>x. Mark x \<in> set body \<longrightarrow> x \<noteq> [] \<and> hd x \<noteq> CHR ''/'')
     \<and> (case map_of variables v of Some (JArr es) \<Rightarrow> list_all plainItem es | _ \<Rightarrow> True)"

definition wordOrMarker :: "string \<Rightarrow> bool" where
  "wordOrMarker x \<longleftrightarrow> isWord x \<or> isMarker x"

text \<open>
  The table of mergeSections read off as a list: the parent sections, each with the first child
  section of the same id set onto it by the code's own merge, then the new child sections.
\<close>

definition nestedMerge :: "TemplateSection \<Rightarrow> TemplateSection \<Rightarrow> TemplateSection list optional" where
  "nestedMerge p c =
     (case sec_sections c of
        Present cs \<Rightarrow> Present (mergeSections (valueOr [] (sec_sections p)) cs)
      | _ \<Rightarrow> readSections p)"

definition mergedOnto :: "TemplateSection list \<Rightarrow> TemplateSection \<Rightarrow> TemplateSection" where
  "mergedOnto child p =
     (case find (\<lambda>c. sec_id c = sec_id p) child of
        None \<Rightarrow> p
      | Some c \<Rightarrow> mergeSection p c (nestedMerge p c))"

definition mergedInOrder :: "TemplateSection list \<Rightarrow> TemplateSection list \<Rightarrow> TemplateSection list" where
  "mergedInOrder parent child =
     map (mergedOnto child) parent @ filter (\<lambda>c. sec_id c \<notin> sec_id ` set parent) child"

text \<open>A table whose keys are distinct and are the ids of its sections.\<close>

definition keyed :: "(string \<times> TemplateSection) list \<Rightarrow> bool" where
  "keyed m \<longleftrightarrow> distinct (map fst m) \<and> list_all (\<lambda>(k, s). sec_id s = k) m"

section \<open>Example data\<close>

definition variableDef :: "string \<Rightarrow> bool \<Rightarrow> jsval option \<Rightarrow> TemplateVariable" where
  "variableDef name required dflt =
     \<lparr>var_name = name, var_label = name, var_type = ''string'', var_default = dflt,
      var_required = Present required, var_description = Absent, var_options = Absent,
      var_pattern = Absent, var_min = Absent, var_max = Absent\<rparr>"

definition exampleMeta :: TemplateMeta where
  "exampleMeta =
     \<lparr>meta_id = ''example'', meta_name = ''Example'', meta_description = ''An example'',
      meta_version = ''1.0.0'', meta_author = Absent, meta_category = ''custom'',
      meta_scope = ''standard'', meta_audience = Absent, meta_tags = Absent,
      meta_license = Absent\<rparr>"

definition templateOf :: "TemplateVariable list \<Rightarrow> TemplateSection list \<Rightarrow> CustomTemplate" where
  "templateOf vs secs =
     \<lparr>tpl_meta = exampleMeta, tpl_variables = vs, tpl_sections = secs,
      tpl_extends = Absent, tpl_prompts = Absent\<rparr>"

definition sectionOf :: "string \<Rightarrow> string \<Rightarrow> string \<Rightarrow> TemplateSection" where
  "sectionOf i title content =
     TemplateSection i title content Absent Absent Absent Absent Absent"

definition morning :: clock where
  "morning = \<lparr>clk_fullYear = 2026, clk_month = 10, clk_date = 3,
               clk_hours = 9, clk_minutes = 5, clk_seconds = 0\<rparr>"

definition nextDay :: clock where
  "nextDay = \<lparr>clk_fullYear = 2026, clk_month = 10, clk_date = 4,
               clk_hours = 9, clk_minutes = 5, clk_seconds = 0\<rparr>"

definition notExists :: "string \<Rightarrow> SectionCondition" where
  "notExists v = \<lparr>cond_variable = v, cond_operator = ''not_exists'', cond_value = None\<rparr>"

text \<open>
  A template that calls helpers but not the \<^verbatim>\<open>date\<close> helper in any section that is
  compiled (the section that does is hidden), and one that calls it.
\<close>

definition undatedTemplate :: CustomTemplate where
  "undatedTemplate =
     templateOf []
       [sectionOf ''stamp'' ''By {{uppercase author}}'' ''{{length langs}} languages, {{unknown}}'',
        TemplateSection ''draft'' ''Draft of {{date}}'' ''{{date}}'' (Present (notExists ''author''))
          Absent Absent Absent Absent]"

definition undatedContext :: TemplateContext where
  "undatedContext =
     \<lparr>ctx_variables = [(''author'', JStr ''ada''), (''langs'', JArr [JStr ''Go'', JStr ''Rust''])]\<rparr>"

definition datedTemplate :: CustomTemplate where
  "datedTemplate =
     templateOf [] [sectionOf ''stamp'' ''Generated'' ''{{date}} by {{uppercase author}}'']"

definition guardedSection :: "string \<Rightarrow> TemplateSection" where
  "guardedSection v =
     TemplateSection ''setup'' ''Setup'' ''Run {{tool}}'' (Present (notExists v))
       Absent Absent Absent Absent"

text \<open>
  A parent and a child list: the child overrides titles, contents and some optional fields,
  leaves others to the parent, brings nested lists of its own or none, and adds new sections.
\<close>

definition parentSections :: "TemplateSection list" where
  "parentSections =
     [TemplateSection ''intro'' ''Introduction'' ''Welcome'' (Present (notExists ''draft''))
        Absent (Present True) (Present 1) (Present ''p-intro''),
      TemplateSection ''body'' ''Body'' ''text'' Absent
        (Present [TemplateSection ''b1'' ''First'' ''one'' Absent Absent Absent (Present 5) Absent])
        Absent (Present 2) Absent,
      TemplateSection ''legal'' ''Legal'' ''terms'' Absent
        (Present [TemplateSection ''l1'' ''Licence'' ''MIT'' Absent Absent Absent Absent Absent])
        Absent Absent Absent]"

definition childSections :: "TemplateSection list" where
  "childSections =
     [TemplateSection ''appendix'' ''Appendix'' ''extra'' Absent Absent Absent (Present 2) Absent,
      TemplateSection ''body'' ''Main part'' ''new text'' Absent
        (Present [TemplateSection ''b0'' ''Zeroth'' ''zero'' Absent Absent Absent (Present 1) Absent,
                  TemplateSection ''b1'' ''First again'' ''uno'' Absent Absent (Present True) Absent Absent])
        Absent Absent Absent,
      TemplateSection ''notes'' ''Notes'' ''n'' Absent Absent Absent PresentUndefined Absent,
      TemplateSection ''legal'' ''Legal notice'' ''new terms'' Absent Absent Absent (Present 3) Absent,
      TemplateSection ''intro'' ''Intro'' ''Hi'' Absent Absent (Present False) Absent PresentUndefined]"

definition compiledExample :: CompiledTemplate where
  "compiledExample =
     \<lparr>ct_template = templateOf [] [],
      ct_sections =
        [CompiledSection ''a'' ''Alpha'' ''  first  '' (Present
           [CompiledSection ''b'' ''Beta'' ''   '' (Present
              [CompiledSection ''c'' ''Gamma'' ''3'' (Present
                 [CompiledSection ''d'' ''Delta'' ''4'' (Present
                    [CompiledSection ''e'' ''Epsilon'' ''5'' (Present
                       [CompiledSection ''f'' ''Zeta'' ''6'' (Present
                          [CompiledSection ''g'' ''Eta'' ''7'' Absent])])])])])]),
         CompiledSection ''z'' ''Omega'' [] Absent],
      ct_variables = []\<rparr>"

definition letterVariables :: jsrecord where
  "letterVariables =
     [(''reader'', JStr ''Ada''), (''langs'', JArr [JStr ''Go'', JStr ''Rust''])]"

definition loopVariables :: jsrecord where
  "loopVariables =
     [(''langs'', JArr [JStr ''Go'', JStr ''Rust'', JStr ''Zig'']),
      (''team'', JArr [JObj [(''name'', JStr ''Ada''), (''age'', JNum 36)],
                       JObj [(''name'', JStr ''Alan''), (''age'', JNum 41)]])]"

section \<open>Properties\<close>

subsection \<open>Auxiliary facts\<close>

lemma bindE_Inr [simp]: "bindE (Inr v) f = f v"
  by (simp add: bindE_def)

lemma bindE_Inl [simp]: "bindE (Inl e) f = Inl e"
  by (simp add: bindE_def)

lemma resolveInheritance_falsy_extends:
  "extendsOf template = None \<Longrightarrow> resolveInheritance eng template = Some (Inr template)"
  by (subst resolveInheritance.simps) simp

lemma compile_flat:
  "extendsOf template = None \<Longrightarrow>
   compile eng now template context =
     Some (bindE (resolveVariables (tpl_variables template) (ctx_variables context))
             (\<lambda>variables.
                bindE (compileSections eng now (tpl_sections template) variables)
                  (\<lambda>sections.
                     Inr \<lparr>ct_template = template, ct_sections = sections,
                          ct_variables = variables\<rparr>)))"
  by (simp add: compile_def resolveInheritance_falsy_extends)

lemma extendsOf_templateOf [simp]: "extendsOf (templateOf vs secs) = None"
  by (simp add: extendsOf_def templateOf_def)

lemma setProp_ok: "k \<noteq> ''__proto__'' \<Longrightarrow> \<exists>r'. setProp r k v = Inr r'"
  by (simp add: setProp_def)

subsection \<open>Inheritance without a parent\<close>

text \<open>
  C9. For every template whose \<^verbatim>\<open>extends\<close> field is absent, resolveInheritance returns,
  and returns the template unchanged.
\<close>

theorem resolveInheritance_no_extends:
  "tpl_extends template = Absent \<Longrightarrow> resolveInheritance eng template = Some (Inr template)"
  by (subst resolveInheritance.simps) (simp add: extendsOf_def)

theorem resolveInheritance_no_extends_witness:
  "tpl_extends (templateOf [variableDef ''name'' True None] [sectionOf ''x'' ''X'' ''Hello''])
     = Absent
   \<and> resolveInheritance createTemplateEngine
        (templateOf [variableDef ''name'' True None] [sectionOf ''x'' ''X'' ''Hello''])
      = Some (Inr (templateOf [variableDef ''name'' True None] [sectionOf ''x'' ''X'' ''Hello'']))"
proof -
  have h: "tpl_extends (templateOf [variableDef ''name'' True None]
             [sectionOf ''x'' ''X'' ''Hello'']) = Absent"
    by (simp add: templateOf_def)
  from resolveInheritance_no_extends [OF h] h show ?thesis by simp
qed

subsection \<open>Required variables\<close>

lemma getProp_own:
  "\<not> inheritedName k \<Longrightarrow>
   getProp r k = JUndefined \<longleftrightarrow> map_of r k = None \<or> map_of r k = Some JUndefined"
  by (auto simp: getProp_def inheritedName_def split: option.splits)

lemma inheritedName_proto: "inheritedName ''__proto__''"
  by (simp add: inheritedName_def objectPrototype_def)

lemma resolveDefinitions_first_missing:
  "find (isMissing provided) defs = Some d \<Longrightarrow>
   list_all (\<lambda>v. \<not> inheritedName (var_name v)) defs \<Longrightarrow>
   resolveDefinitions defs provided resolved = Inl (RequiredVariableMissing (var_name d))"
proof (induction defs arbitrary: resolved)
  case Nil
  then show ?case by simp
next
  case (Cons a defs)
  from Cons.prems have ni: "\<not> inheritedName (var_name a)"
    and rest: "list_all (\<lambda>v. \<not> inheritedName (var_name v)) defs"
    by simp_all
  note own = getProp_own [OF ni, of provided]
  show ?case
  proof (cases "isMissing provided a")
    case True
    with Cons.prems have "d = a" by simp
    with True own show ?thesis by (auto simp: isMissing_def)
  next
    case False
    with Cons.prems have f: "find (isMissing provided) defs = Some d" by simp
    from ni inheritedName_proto have na: "var_name a \<noteq> ''__proto__''"
      by auto
    have ih: "\<And>r. resolveDefinitions defs provided r = Inl (RequiredVariableMissing (var_name d))"
      using Cons.IH [OF f rest] .
    from setProp_ok [OF na] obtain r1 r2
      where s1: "setProp resolved (var_name a) (getProp provided (var_name a)) = Inr r1"
        and s2: "setProp resolved (var_name a) (the (var_default a)) = Inr r2"
      by metis
    from False own show ?thesis
      by (auto simp: isMissing_def s1 s2 ih)
  qed
qed



lemma resolveVariables_two_missing:
  "resolveVariables [variableDef ''a'' True None, variableDef ''b'' True None] []
     = Inl (RequiredVariableMissing ''a'')"
  by code_simp

lemma resolveVariables_toString:
  "resolveVariables [variableDef ''toString'' True None] []
     = Inr [(''toString'', JFun ''toString'')]"
  by code_simp


subsection \<open>The clock\<close>

lemma replaceAllFn_cong_matches:
  "(\<And>g matched. g \<in> set (matchesOf m s) \<Longrightarrow> f matched g = f' matched g) \<Longrightarrow>
   replaceAllFn m f s = replaceAllFn m f' s"
proof (induction m f s rule: replaceAllFn.induct)
  case (1 m f)
  show ?case by simp
next
  case (2 m f c cs)
  show ?case
  proof (cases "m (c # cs)")
    case None
    with 2 show ?thesis by simp
  next
    case (Some a)
    obtain g rest where a: "a = (g, rest)" by (cases a)
    show ?thesis
    proof (cases "length rest \<le> length cs")
      case True
      have fg: "f matched g = f' matched g" for matched
        using "2.prems" [of g matched] Some a True by simp
      have "replaceAllFn m f rest = replaceAllFn m f' rest"
        if "f (take (Suc (length cs) - length rest) (c # cs)) g = Inr r" for r
        using "2.IH"(2) [OF Some a [symmetric] True that] "2.prems" Some a True by simp
      with Some a True fg show ?thesis
        by (auto split: sum.splits)
    next
      case False
      with Some a show ?thesis by simp
    qed
  qed
qed

lemma processHelperCalls_steady:
  assumes "list_all (steady eng now1 now2) (map fst (matchesOf matchHelper text))"
  shows "processHelperCalls eng now1 text variables = processHelperCalls eng now2 text variables"
  unfolding processHelperCalls_def
proof (rule replaceAllFn_cong_matches)
  fix g :: "string \<times> string option" and matched :: string
  assume m: "g \<in> set (matchesOf matchHelper text)"
  obtain helperName argsString where g: "g = (helperName, argsString)" by (cases g)
  from assms m g have "steady eng now1 now2 helperName"
    by (force simp: list_all_iff)
  then show "(case g of (helperName, argsString) \<Rightarrow>
          case helpers eng helperName of
            None \<Rightarrow> Inr matched
          | Some helper \<Rightarrow>
              bindE (case argsString of
                       None \<Rightarrow> Inr []
                     | Some a \<Rightarrow> mapE (resolveArg variables) (splitWs a))
                (\<lambda>args. bindE (helper now1 args variables) toStr))
      = (case g of (helperName, argsString) \<Rightarrow>
          case helpers eng helperName of
            None \<Rightarrow> Inr matched
          | Some helper \<Rightarrow>
              bindE (case argsString of
                       None \<Rightarrow> Inr []
                     | Some a \<Rightarrow> mapE (resolveArg variables) (splitWs a))
                (\<lambda>args. bindE (helper now2 args variables) toStr))"
    by (auto simp: g steady_def split: option.splits)
qed

lemma interpolate_steady:
  "list_all (steady eng now1 now2) (helperCalls text variables) \<Longrightarrow>
   interpolate eng now1 text variables = interpolate eng now2 text variables"
  unfolding interpolate_def helperCalls_def
  by (auto simp: bindE_def processHelperCalls_steady split: sum.splits)

lemma compileSections_steady:
  "list_all (steady eng now1 now2) (sectionCalls sections variables) \<Longrightarrow>
   compileSections eng now1 sections variables = compileSections eng now2 sections variables"
proof (induction sections variables rule: sectionCalls.induct)
  case (1 variables)
  show ?case by simp
next
  case (2 i t c cond secs col ord p rest variables)
  show ?case
  proof (cases "case cond of Present cnd \<Rightarrow> evaluateCondition cnd variables = Inr False | _ \<Rightarrow> False")
    case True
    with 2 show ?thesis
      by (auto split: optional.splits)
  next
    case False
    with "2.prems" have t: "interpolate eng now1 t variables = interpolate eng now2 t variables"
      and c: "interpolate eng now1 c variables = interpolate eng now2 c variables"
      by (auto intro: interpolate_steady)
    from False "2.prems" have rest: "compileSections eng now1 rest variables = compileSections eng now2 rest variables"
      by (intro "2.IH"(2)) auto
    have nested: "compileSections eng now1 cs variables = compileSections eng now2 cs variables"
      if "secs = Present cs" for cs
      using False "2.prems" that by (intro "2.IH"(1) [OF False that]) auto
    show ?thesis
    proof (cases secs)
      case (Present cs)
      show ?thesis
        unfolding Present compileSections.simps optional.case t c rest nested [OF Present] ..
    next
      case Absent
      show ?thesis
        unfolding Absent compileSections.simps optional.case t c rest ..
    next
      case PresentUndefined
      show ?thesis
        unfolding PresentUndefined compileSections.simps optional.case t c rest ..
    qed
  qed
qed


lemma compileCalls_flat:
  "extendsOf template = None \<Longrightarrow>
   compileCalls eng template context =
     (case resolveVariables (tpl_variables template) (ctx_variables context) of
        Inl e \<Rightarrow> []
      | Inr variables \<Rightarrow> sectionCalls (tpl_sections template) variables)"
  by (simp add: compileCalls_def resolveInheritance_falsy_extends)

lemma steady_builtin: "name \<noteq> ''date'' \<Longrightarrow> steady createTemplateEngine now1 now2 name"
  unfolding steady_def
  by (auto simp: registerHelper_def createTemplateEngine_def registerDefaultHelpers_def
        uppercaseHelper_def lowercaseHelper_def capitalizeHelper_def
        joinHelper_def defaultHelper_def lengthHelper_def truncateHelper_def slugHelper_def
        split: if_splits)

lemma undated_calls:
  "(case resolveVariables (tpl_variables undatedTemplate) (ctx_variables undatedContext) of
      Inl e \<Rightarrow> []
    | Inr variables \<Rightarrow> sectionCalls (tpl_sections undatedTemplate) variables)
   = [''uppercase'', ''length'', ''unknown'']"
  by code_simp


lemma resolveVariables_author:
  "resolveVariables [] [(''author'', JStr ''ada'')] = Inr [(''author'', JStr ''ada'')]"
  by code_simp

lemma compileSections_dated_morning:
  "compileSections createTemplateEngine morning
     [sectionOf ''stamp'' ''Generated'' ''{{date}} by {{uppercase author}}'']
     [(''author'', JStr ''ada'')]
   = Inr [CompiledSection ''stamp'' ''Generated'' ''2026-11-03 by ADA'' Absent]"
  by code_simp

lemma compileSections_dated_nextDay:
  "compileSections createTemplateEngine nextDay
     [sectionOf ''stamp'' ''Generated'' ''{{date}} by {{uppercase author}}'']
     [(''author'', JStr ''ada'')]
   = Inr [CompiledSection ''stamp'' ''Generated'' ''2026-11-04 by ADA'' Absent]"
  by code_simp


subsection \<open>A quoted separator\<close>

text \<open>
  C3. The content \<^verbatim>\<open>{{join techStack ", "}}\<close> with \<^verbatim>\<open>techStack = ["Go","Rust"]\<close>: the
  argument text is split at the blank inside the quotes, the tokens are \<^verbatim>\<open>techStack\<close>,
  \<^verbatim>\<open>",\<close> and \<^verbatim>\<open>"\<close>, and the separator is the second token as it stands. The result is
  \<^verbatim>\<open>Go",Rust\<close>, not \<^verbatim>\<open>Go, Rust\<close>.
\<close>

theorem join_quoted_separator_output:
  "interpolate createTemplateEngine now
     (''{{join techStack '' @ [CHR 0x22] @ '', '' @ [CHR 0x22] @ ''}}'')
     [(''techStack'', JArr [JStr ''Go'', JStr ''Rust''])]
   = Inr (''Go'' @ [CHR 0x22] @ '',Rust'')"
  by code_simp

subsection \<open>Sections under a not\_exists condition\<close>

text \<open>
  A section whose condition has the operator \<^verbatim>\<open>not_exists\<close> is compiled (title and
  content interpolated, nested sections compiled) and put in front of the rest when the lookup
  of its variable gives undefined, null or the empty string; otherwise it is left out together
  with its nested sections, and the result is that of the rest.
\<close>

lemma compileSections_not_exists:
  assumes "cond_operator c = ''not_exists''"
  shows "compileSections eng now
           (TemplateSection i t body (Present c) secs col ord p # rest) variables =
     (if getProp variables (cond_variable c) = JUndefined
         \<or> getProp variables (cond_variable c) = JNull
         \<or> getProp variables (cond_variable c) = JStr []
      then
        bindE (interpolate eng now t variables)
          (\<lambda>title. bindE (interpolate eng now body variables)
             (\<lambda>content.
                bindE (case secs of
                         Present cs \<Rightarrow>
                           bindE (compileSections eng now cs variables) (\<lambda>k. Inr (Present k))
                       | _ \<Rightarrow> Inr Absent)
                  (\<lambda>nested. bindE (compileSections eng now rest variables)
                     (\<lambda>others. Inr (CompiledSection i title content nested # others)))))
      else compileSections eng now rest variables)"
  using assms by (simp add: evaluateCondition_def bindE_def split: sum.splits optional.splits)

lemma interpolate_Setup: "interpolate createTemplateEngine morning ''Setup'' [] = Inr ''Setup''"
  by code_simp

lemma interpolate_Run:
  "interpolate createTemplateEngine morning ''Run {{tool}}'' [] = Inr ''Run {{tool}}''"
  by code_simp

text \<open>
  For a name that no plain object inherits the lookup gives undefined exactly when the name is
  no key of the mapping (or a key that holds undefined), and the section is kept then.
\<close>

lemma compileSections_not_exists_example:
  "compileSections createTemplateEngine morning [guardedSection ''hasAuth''] []
     = Inr [CompiledSection ''setup'' ''Setup'' ''Run {{tool}}'' Absent]
   \<and> compileSections createTemplateEngine morning [guardedSection ''hasAuth'']
         [(''hasAuth'', JStr ''yes'')]
     = Inr []"
proof -
  have h: "cond_operator (notExists ''hasAuth'') = ''not_exists''"
    by (simp add: notExists_def)
  have v: "cond_variable (notExists ''hasAuth'') = ''hasAuth''"
    by (simp add: notExists_def)
  have a: "getProp [] ''hasAuth'' = JUndefined"
    by (simp add: getProp_def objectPrototype_def)
  have b: "getProp [(''hasAuth'', JStr ''yes'')] ''hasAuth'' = JStr ''yes''"
    by (simp add: getProp_def)
  show ?thesis
    unfolding guardedSection_def
    by (simp only: compileSections_not_exists [OF h] v a b)
       (simp add: interpolate_Setup interpolate_Run)
qed

lemma compileSections_constructor:
  "compileSections createTemplateEngine morning [guardedSection ''constructor''] [] = Inr []"
proof -
  have h: "cond_operator (notExists ''constructor'') = ''not_exists''"
    by (simp add: notExists_def)
  have v: "cond_variable (notExists ''constructor'') = ''constructor''"
    by (simp add: notExists_def)
  have a: "getProp [] ''constructor'' = JFun ''Object''"
    by (simp add: getProp_def objectPrototype_def)
  show ?thesis
    unfolding guardedSection_def
    by (simp only: compileSections_not_exists [OF h] v a) simp
qed

text \<open>
  C7. The claim fails on the code for a variable that bears the name of a member of
  \<^verbatim>\<open>Object.prototype\<close>. The template has one section under the condition
  \<^verbatim>\<open>not_exists\<close> on \<^verbatim>\<open>constructor\<close>, declares no variable and is compiled with the
  empty mapping: the resolved mapping is empty, so the variable is absent from it, and yet the
  compiled output has no section. evaluateCondition reads \<^verbatim>\<open>variables[condition.variable]\<close>,
  which falls through to the inherited function, whereas the second loop of resolveVariables
  goes by the own entries of the mapping.
\<close>

theorem compile_not_exists_inherited_name:
  "compile createTemplateEngine morning (templateOf [] [guardedSection ''constructor''])
     \<lparr>ctx_variables = []\<rparr>
   = Some (Inr \<lparr>ct_template = templateOf [] [guardedSection ''constructor''],
                  ct_sections = [],
                  ct_variables = []\<rparr>)"
  by (simp add: compile_flat)
     (simp add: templateOf_def resolveVariables_def compileSections_constructor)

subsection \<open>Rendering\<close>

lemma renderSection_walk: "renderSection s (Suc depth) = walkSection depth s"
proof (induction depth s rule: walkSection.induct)
  case (1 depth i title content secs)
  show ?case
  proof (cases secs)
    case (Present children)
    have "concat (map (\<lambda>child. renderSection child (Suc (Suc depth))) children)
            = concat (map (walkSection (Suc depth)) children)"
      using 1 [OF Present] by (simp cong: map_cong)
    with Present show ?thesis by (simp add: heading_def)
  qed (simp_all add: heading_def)
qed

text \<open>
  C8. render puts the interpolated name of the template under a heading of level 1 and then
  walks the compiled sections depth first: the title of a section at nesting depth \<open>d\<close> (the
  sections of the template at depth 1) under a heading of level \<open>d + 1\<close>, at most 6, an empty
  line, the trimmed content and an empty line when the trimmed content is not empty, then the
  nested sections at depth \<open>d + 1\<close>; the lines are joined by line feeds.
\<close>

theorem render_walks_tree:
  "render eng now compiled =
     bindE (interpolate eng now (meta_name (tpl_meta (ct_template compiled))) (ct_variables compiled))
       (\<lambda>name. Inr (joinWith [CHR 0x0A]
                  ([heading 1 name, []] @ concat (map (walkSection 1) (ct_sections compiled)))))"
proof -
  have "(\<lambda>section. renderSection section 2) = walkSection 1"
    using renderSection_walk [of _ 1] by (auto simp: numeral_2_eq_2)
  then show ?thesis by (simp add: render_def heading_def)
qed

lemma interpolate_Example:
  "interpolate createTemplateEngine morning ''Example'' [] = Inr ''Example''"
  by code_simp

lemma walk_compiledExample:
  "joinWith [CHR 0x0A]
     ([heading 1 ''Example'', []] @ concat (map (walkSection 1) (ct_sections compiledExample)))
   = ''# Example'' @ [CHR 0x0A, CHR 0x0A]
     @ ''## Alpha'' @ [CHR 0x0A, CHR 0x0A] @ ''first'' @ [CHR 0x0A, CHR 0x0A]
     @ ''### Beta'' @ [CHR 0x0A, CHR 0x0A]
     @ ''#### Gamma'' @ [CHR 0x0A, CHR 0x0A] @ ''3'' @ [CHR 0x0A, CHR 0x0A]
     @ ''##### Delta'' @ [CHR 0x0A, CHR 0x0A] @ ''4'' @ [CHR 0x0A, CHR 0x0A]
     @ ''###### Epsilon'' @ [CHR 0x0A, CHR 0x0A] @ ''5'' @ [CHR 0x0A, CHR 0x0A]
     @ ''###### Zeta'' @ [CHR 0x0A, CHR 0x0A] @ ''6'' @ [CHR 0x0A, CHR 0x0A]
     @ ''###### Eta'' @ [CHR 0x0A, CHR 0x0A] @ ''7'' @ [CHR 0x0A, CHR 0x0A]
     @ ''## Omega'' @ [CHR 0x0A]"
  by code_simp

text \<open>
  A tree seven levels deep, with a blank content at the second level and an empty one at the
  end: the headings stop at level 6, and the blank sections keep their heading.
\<close>

theorem render_walks_tree_witness:
  "render createTemplateEngine morning compiledExample
   = Inr (''# Example'' @ [CHR 0x0A, CHR 0x0A]
     @ ''## Alpha'' @ [CHR 0x0A, CHR 0x0A] @ ''first'' @ [CHR 0x0A, CHR 0x0A]
     @ ''### Beta'' @ [CHR 0x0A, CHR 0x0A]
     @ ''#### Gamma'' @ [CHR 0x0A, CHR 0x0A] @ ''3'' @ [CHR 0x0A, CHR 0x0A]
     @ ''##### Delta'' @ [CHR 0x0A, CHR 0x0A] @ ''4'' @ [CHR 0x0A, CHR 0x0A]
     @ ''###### Epsilon'' @ [CHR 0x0A, CHR 0x0A] @ ''5'' @ [CHR 0x0A, CHR 0x0A]
     @ ''###### Zeta'' @ [CHR 0x0A, CHR 0x0A] @ ''6'' @ [CHR 0x0A, CHR 0x0A]
     @ ''###### Eta'' @ [CHR 0x0A, CHR 0x0A] @ ''7'' @ [CHR 0x0A, CHR 0x0A]
     @ ''## Omega'' @ [CHR 0x0A])"
proof -
  have n: "meta_name (tpl_meta (ct_template compiledExample)) = ''Example''"
    and v: "ct_variables compiledExample = []"
    by (simp_all add: compiledExample_def templateOf_def exampleMeta_def)
  show ?thesis
    by (simp only: render_walks_tree n v interpolate_Example bindE_Inr walk_compiledExample)
qed

subsection \<open>Merging sections\<close>

lemma mergeChildren_Cons:
  "mergeChildren merged (s # rest) =
     mergeChildren
       (case map_of merged (sec_id s) of
          Some existing \<Rightarrow> mapSet merged (sec_id s) (mergeSection existing s (nestedMerge existing s))
        | None \<Rightarrow> mapSet merged (sec_id s) s)
       rest"
  by (cases s) (simp add: nestedMerge_def split: option.splits optional.splits)

lemma mapSet_fresh: "k \<notin> fst ` set m \<Longrightarrow> mapSet m k v = m @ [(k, v)]"
  by (induction m) auto

lemma mapSet_existing:
  "distinct (map fst m) \<Longrightarrow> k \<in> fst ` set m \<Longrightarrow>
   mapSet m k v = map (\<lambda>(k', v'). if k' = k then (k, v) else (k', v')) m"
proof (induction m)
  case Nil
  then show ?case by simp
next
  case (Cons a m)
  obtain k' v' where a: "a = (k', v')" by (cases a)
  show ?case
  proof (cases "k' = k")
    case True
    with Cons.prems a have "k \<notin> fst ` set m" by auto
    then have "map (\<lambda>(k', v'). if k' = k then (k, v) else (k', v')) m = m"
      by (intro map_idI) (auto simp: rev_image_eqI)
    with True a show ?thesis by simp
  next
    case False
    with Cons a show ?thesis by auto
  qed
qed

lemma seed_distinct:
  "distinct (map sec_id parent) \<Longrightarrow> sec_id ` set parent \<inter> fst ` set acc = {} \<Longrightarrow>
   foldl (\<lambda>merged s. mapSet merged (sec_id s) s) acc parent = acc @ map (\<lambda>s. (sec_id s, s)) parent"
proof (induction parent arbitrary: acc)
  case Nil
  then show ?case by simp
next
  case (Cons a parent)
  from Cons.prems have fresh: "sec_id a \<notin> fst ` set acc" by auto
  have "sec_id ` set parent \<inter> fst ` set (acc @ [(sec_id a, a)]) = {}"
    using Cons.prems by auto
  with Cons show ?case by (simp add: mapSet_fresh [OF fresh])
qed

lemma mergedOnto_Nil [simp]: "mergedOnto [] p = p"
  by (simp add: mergedOnto_def)

lemma mergedOnto_Cons_other:
  "sec_id s \<noteq> sec_id p \<Longrightarrow> mergedOnto (s # rest) p = mergedOnto rest p"
  by (simp add: mergedOnto_def)

lemma mergedOnto_Cons_same:
  "sec_id s = sec_id p \<Longrightarrow> mergedOnto (s # rest) p = mergeSection p s (nestedMerge p s)"
  by (simp add: mergedOnto_def)

lemma mergedOnto_none: "sec_id p \<notin> sec_id ` set child \<Longrightarrow> mergedOnto child p = p"
  by (induction child) (auto simp: mergedOnto_def)

lemma sec_id_mergeSection [simp]: "sec_id (mergeSection e s n) = sec_id s"
  by (simp add: mergeSection_def)

lemma keyed_entry: "keyed m \<Longrightarrow> (k, p) \<in> set m \<Longrightarrow> sec_id p = k"
  by (auto simp: keyed_def list_all_iff)

lemma keyed_unique: "keyed m \<Longrightarrow> (k, p) \<in> set m \<Longrightarrow> (k, q) \<in> set m \<Longrightarrow> p = q"
  unfolding keyed_def by (metis map_of_is_SomeI option.inject)

lemma entries_fresh:
  assumes "keyed m" and "sec_id s \<notin> fst ` set m"
  shows "map (\<lambda>(k, p). (k, mergedOnto (s # rest) p)) m = map (\<lambda>(k, p). (k, mergedOnto rest p)) m"
proof (intro map_cong refl)
  fix x assume xm: "x \<in> set m"
  obtain k p where x: "x = (k, p)" by (cases x)
  from xm x have "sec_id p = k" using keyed_entry [OF assms(1)] by simp
  moreover from xm x have "k \<in> fst ` set m" by (metis fst_conv imageI)
  ultimately have "sec_id s \<noteq> sec_id p" using assms(2) by metis
  with x show "(case x of (k, p) \<Rightarrow> (k, mergedOnto (s # rest) p))
             = (case x of (k, p) \<Rightarrow> (k, mergedOnto rest p))"
    by (simp add: mergedOnto_Cons_other)
qed

lemma entries_updated:
  assumes "keyed m" and "(sec_id s, existing) \<in> set m" and "sec_id s \<notin> sec_id ` set rest"
  shows "map (\<lambda>(k, p). (k, mergedOnto rest p))
           (map (\<lambda>(k', v'). if k' = sec_id s
                             then (sec_id s, mergeSection existing s (nestedMerge existing s))
                             else (k', v')) m)
         = map (\<lambda>(k, p). (k, mergedOnto (s # rest) p)) m"
proof -
  let ?v = "mergeSection existing s (nestedMerge existing s)"
  have v: "mergedOnto rest ?v = ?v"
    using assms(3) by (intro mergedOnto_none) simp
  have "(case (case x of (k', v') \<Rightarrow> if k' = sec_id s then (sec_id s, ?v) else (k', v')) of
           (k, p) \<Rightarrow> (k, mergedOnto rest p))
        = (case x of (k, p) \<Rightarrow> (k, mergedOnto (s # rest) p))"
    if xm: "x \<in> set m" for x
  proof -
    obtain k p where x: "x = (k, p)" by (cases x)
    with xm have kp: "(k, p) \<in> set m" by simp
    then have idp: "sec_id p = k" by (rule keyed_entry [OF assms(1)])
    show ?thesis
    proof (cases "k = sec_id s")
      case True
      with kp assms(2) have "p = existing"
        using keyed_unique [OF assms(1)] by blast
      with True x idp v show ?thesis
        by (simp add: mergedOnto_Cons_same)
    next
      case False
      with x idp show ?thesis by (simp add: mergedOnto_Cons_other)
    qed
  qed
  then show ?thesis
    unfolding map_map by (intro map_cong refl) simp
qed

lemma keyed_updated:
  assumes "keyed m" and "sec_id v = k"
  shows "keyed (map (\<lambda>(k', v'). if k' = k then (k, v) else (k', v')) m)"
proof -
  have keys: "map fst (map (\<lambda>(k', v'). if k' = k then (k, v) else (k', v')) m) = map fst m"
    by (induction m) auto
  have "list_all (\<lambda>(k, s). sec_id s = k) (map (\<lambda>(k', v'). if k' = k then (k, v) else (k', v')) m)"
    using assms unfolding keyed_def list_all_iff by (auto split: if_splits)
  moreover have "distinct (map fst (map (\<lambda>(k', v'). if k' = k then (k, v) else (k', v')) m))"
    unfolding keys using assms(1) by (simp add: keyed_def)
  ultimately show ?thesis
    unfolding keyed_def by blast
qed

lemma keys_updated:
  "fst ` set (map (\<lambda>(k', v'). if k' = k then (k, v) else (k', v')) m) = fst ` set m"
proof -
  have "map fst (map (\<lambda>(k', v'). if k' = k then (k, v) else (k', v')) m) = map fst m"
    by (induction m) auto
  then show ?thesis by (metis list.set_map)
qed

lemma mergeChildren_distinct:
  "keyed m \<Longrightarrow> distinct (map sec_id child) \<Longrightarrow>
   mergeChildren m child =
     map (\<lambda>(k, p). (k, mergedOnto child p)) m
     @ map (\<lambda>c. (sec_id c, c)) (filter (\<lambda>c. sec_id c \<notin> fst ` set m) child)"
proof (induction child arbitrary: m)
  case Nil
  then show ?case by (simp add: case_prod_unfold)
next
  case (Cons s rest)
  from Cons.prems have dm: "distinct (map fst m)"
    by (simp add: keyed_def)
  from Cons.prems have dr: "distinct (map sec_id rest)" and sr: "sec_id s \<notin> sec_id ` set rest"
    by auto
  show ?case
  proof (cases "map_of m (sec_id s)")
    case None
    then have fresh: "sec_id s \<notin> fst ` set m"
      by (simp add: map_of_eq_None_iff)
    let ?m' = "m @ [(sec_id s, s)]"
    have k': "keyed ?m'"
      using Cons.prems(1) fresh by (auto simp: keyed_def)
    have step: "mergeChildren m (s # rest) = mergeChildren ?m' rest"
      by (simp add: mergeChildren_Cons None mapSet_fresh [OF fresh])
    have filt: "filter (\<lambda>c. sec_id c \<notin> fst ` set ?m') rest = filter (\<lambda>c. sec_id c \<notin> fst ` set m) rest"
    proof (intro filter_cong refl)
      fix x assume "x \<in> set rest"
      with sr have "sec_id x \<noteq> sec_id s" by (metis imageI)
      then show "(sec_id x \<notin> fst ` set ?m') = (sec_id x \<notin> fst ` set m)" by simp
    qed
    have front: "map (\<lambda>(k, p). (k, mergedOnto rest p)) ?m'
             = map (\<lambda>(k, p). (k, mergedOnto (s # rest) p)) m @ [(sec_id s, s)]"
      by (simp add: entries_fresh [OF Cons.prems(1) fresh] mergedOnto_none [OF sr])
    have tailEq: "filter (\<lambda>c. sec_id c \<notin> fst ` set m) (s # rest)
             = s # filter (\<lambda>c. sec_id c \<notin> fst ` set m) rest"
      using fresh by simp
    have "mergeChildren ?m' rest =
            map (\<lambda>(k, p). (k, mergedOnto rest p)) ?m'
            @ map (\<lambda>c. (sec_id c, c)) (filter (\<lambda>c. sec_id c \<notin> fst ` set ?m') rest)"
      by (rule Cons.IH [OF k' dr])
    then show ?thesis
      unfolding step filt front tailEq by simp
  next
    case (Some existing)
    then have mem: "(sec_id s, existing) \<in> set m"
      by (rule map_of_SomeD)
    then have present: "sec_id s \<in> fst ` set m"
      by (metis fst_conv imageI)
    let ?v = "mergeSection existing s (nestedMerge existing s)"
    let ?m' = "map (\<lambda>(k', v'). if k' = sec_id s then (sec_id s, ?v) else (k', v')) m"
    have k': "keyed ?m'"
      by (rule keyed_updated [OF Cons.prems(1)]) simp
    have step: "mergeChildren m (s # rest) = mergeChildren ?m' rest"
      by (simp add: mergeChildren_Cons Some mapSet_existing [OF dm present])
    have tailEq: "filter (\<lambda>c. sec_id c \<notin> fst ` set m) (s # rest)
             = filter (\<lambda>c. sec_id c \<notin> fst ` set m) rest"
      using present by simp
    have "mergeChildren ?m' rest =
            map (\<lambda>(k, p). (k, mergedOnto rest p)) ?m'
            @ map (\<lambda>c. (sec_id c, c)) (filter (\<lambda>c. sec_id c \<notin> fst ` set ?m') rest)"
      by (rule Cons.IH [OF k' dr])
    then show ?thesis
      unfolding step keys_updated entries_updated [OF Cons.prems(1) mem sr] tailEq .
  qed
qed

lemma spreadProp_overriding: "spreadProp a b = overriding b a"
  by (cases b) (simp_all add: spreadProp_def overriding_def)

lemma orderKey_specOrder: "orderKey = specOrder"
  by (auto simp: orderKey_def specOrder_def valueOr_def fun_eq_iff split: optional.splits)

lemma mergeSections_mergedInOrder:
  assumes dp: "distinct (map sec_id parent)" and dc: "distinct (map sec_id child)"
  shows "mergeSections parent child = sort_key orderKey (mergedInOrder parent child)"
proof -
  let ?seed = "map (\<lambda>s. (sec_id s, s)) parent"
  have seed: "foldl (\<lambda>merged s. mapSet merged (sec_id s) s) [] parent = ?seed"
    using seed_distinct [OF dp, of "[]"] by simp
  have ks: "keyed ?seed"
    using dp by (simp add: keyed_def list_all_iff comp_def)
  have "map snd (mergeChildren ?seed child) = mergedInOrder parent child"
    by (simp add: mergeChildren_distinct [OF ks dc] mergedInOrder_def comp_def
          case_prod_unfold image_image)
  then show ?thesis
    by (simp add: seed)
qed

lemma nestedDistinct_sections:
  "nestedDistinct p \<Longrightarrow> siblingsDistinct (case sec_sections p of Present ps \<Rightarrow> ps | _ \<Rightarrow> [])"
  by (cases p) (auto split: optional.splits)

lemma merged_spec:
  shows "siblingsDistinct parent \<Longrightarrow> siblingsDistinct child \<Longrightarrow>
           mergedInOrder parent child = specMerged parent child"
    and "nestedDistinct p \<Longrightarrow> list_all nestedDistinct cs \<Longrightarrow> mergedOnto cs p = specOnto p cs"
proof (induction parent child and p cs rule: specMerged_specOnto.induct)
  case (1 parent child)
  have "mergedOnto child x = specOnto x child" if "x \<in> set parent" for x
    using "1.IH" [OF that] "1.prems" that by (auto simp: list_all_iff)
  then show ?case
    by (simp add: mergedInOrder_def)
next
  case (2 p)
  show ?case by simp
next
  case (3 p i title content cond secs col ord prompt rest)
  let ?c = "TemplateSection i title content cond secs col ord prompt"
  note np = "3.prems"(1) and nc = "3.prems"(2)
  show ?case
  proof (cases "i = sec_id p")
    case False
    with "3.IH"(2) np nc show ?thesis
      by (simp add: mergedOnto_Cons_other)
  next
    case True
    have nested: "nestedMerge p ?c =
        (case secs of
           Present ns \<Rightarrow>
             Present (sort_key specOrder
                        (specMerged (case sec_sections p of Present ps \<Rightarrow> ps | _ \<Rightarrow> []) ns))
         | _ \<Rightarrow> (case sec_sections p of Present ps \<Rightarrow> Present ps | _ \<Rightarrow> PresentUndefined))"
    proof (cases secs)
      case (Present ns)
      let ?pn = "case sec_sections p of Present ps \<Rightarrow> ps | _ \<Rightarrow> []"
      have dpn: "siblingsDistinct ?pn"
        by (rule nestedDistinct_sections [OF np])
      from nc Present have dns: "siblingsDistinct ns" by simp
      have eq: "mergedInOrder ?pn ns = specMerged ?pn ns"
        by (rule "3.IH"(1) [OF True Present dpn dns])
      have v: "valueOr [] (sec_sections p) = ?pn"
        by (simp add: valueOr_def split: optional.splits)
      from dpn dns have "mergeSections ?pn ns = sort_key orderKey (mergedInOrder ?pn ns)"
        by (intro mergeSections_mergedInOrder) simp_all
      with eq Present v show ?thesis
        by (simp add: nestedMerge_def orderKey_specOrder)
    qed (simp_all add: nestedMerge_def readSections_def split: optional.splits)
    from True nested show ?thesis
      by (simp add: mergedOnto_Cons_same mergeSection_def spreadProp_overriding)
  qed
qed


lemma merged_example:
  "sort_key specOrder (specMerged parentSections childSections)
   = [TemplateSection ''notes'' ''Notes'' ''n'' Absent Absent Absent PresentUndefined Absent,
      TemplateSection ''intro'' ''Intro'' ''Hi'' (Present (notExists ''draft''))
        PresentUndefined (Present False) (Present 1) PresentUndefined,
      TemplateSection ''body'' ''Main part'' ''new text'' Absent
        (Present [TemplateSection ''b0'' ''Zeroth'' ''zero'' Absent Absent Absent (Present 1) Absent,
                  TemplateSection ''b1'' ''First again'' ''uno'' Absent PresentUndefined
                    (Present True) (Present 5) Absent])
        Absent (Present 2) Absent,
      TemplateSection ''appendix'' ''Appendix'' ''extra'' Absent Absent Absent (Present 2) Absent,
      TemplateSection ''legal'' ''Legal notice'' ''new terms'' Absent
        (Present [TemplateSection ''l1'' ''Licence'' ''MIT'' Absent Absent Absent Absent Absent])
        Absent (Present 3) Absent]"
  by code_simp

lemma distinct_example: "siblingsDistinct parentSections \<and> siblingsDistinct childSections"
  by code_simp


subsection \<open>Scanning a text item by item\<close>

lemma startsWith_Cons [simp]:
  "startsWith (p # ps) (c # cs) \<longleftrightarrow> p = c \<and> startsWith ps cs"
  by (auto simp: startsWith_def)

lemma startsWith_Nil [simp]: "startsWith [] s"
  by (simp add: startsWith_def)

lemma startsWith_Cons_Nil [simp]: "\<not> startsWith (p # ps) []"
  by (simp add: startsWith_def)

lemma startsWith_append [simp]: "startsWith p (p @ s)"
  by (simp add: startsWith_def)

lemma opensWithBracesD: "opensWithBraces m \<Longrightarrow> \<not> startsWith ''{{'' s \<Longrightarrow> m s = None"
  by (simp add: opensWithBraces_def)

lemma replaceAllFn_prefix:
  assumes nb: "opensWithBraces m"
    and "CHR ''{'' \<notin> set pre"
  shows "replaceAllFn m f (pre @ s) =
           (case replaceAllFn m f s of Inl e \<Rightarrow> Inl e | Inr t \<Rightarrow> Inr (pre @ t))"
  using assms(2)
proof (induction pre)
  case Nil
  then show ?case by (simp split: sum.splits)
next
  case (Cons c pre)
  then have "m ((c # pre) @ s) = None"
    by (intro opensWithBracesD [OF nb]) simp
  with Cons show ?case by (simp split: sum.splits)
qed

lemma replaceAllFn_match:
  assumes "m (a @ rest) = Some (g, rest)" and "a \<noteq> []"
  shows "replaceAllFn m f (a @ rest) =
           (case f a g of
              Inl e \<Rightarrow> Inl e
            | Inr r \<Rightarrow> (case replaceAllFn m f rest of Inl e \<Rightarrow> Inl e | Inr t \<Rightarrow> Inr (r @ t)))"
proof -
  from assms(2) obtain c cs where a: "a = c # cs" by (cases a) auto
  have "take (Suc (length (cs @ rest)) - length rest) (c # cs @ rest) = c # cs"
    by simp
  with assms(1) show ?thesis
    unfolding a by (simp del: take_Suc_Cons split: sum.splits)
qed

lemma replaceAllFn_skip:
  assumes nb: "opensWithBraces m"
    and x: "CHR ''{'' \<notin> set x"
    and none: "m (''{{'' @ x @ ''}}'' @ s) = None"
  shows "replaceAllFn m f (''{{'' @ x @ ''}}'' @ s) =
           (case replaceAllFn m f s of Inl e \<Rightarrow> Inl e | Inr t \<Rightarrow> Inr (''{{'' @ x @ ''}}'' @ t))"
proof -
  have second: "m (CHR ''{'' # x @ ''}}'' @ s) = None"
    using x by (intro opensWithBracesD [OF nb]) (cases x; simp)
  have "CHR ''{'' \<notin> set (x @ ''}}'')"
    using x by simp
  from replaceAllFn_prefix [OF nb this, where f = f and s = s]
  have tail: "replaceAllFn m f (x @ ''}}'' @ s) =
           (case replaceAllFn m f s of Inl e \<Rightarrow> Inl e | Inr t \<Rightarrow> Inr (x @ ''}}'' @ t))"
    by (simp split: sum.splits)
  from none second tail show ?thesis
    by (simp split: sum.splits)
qed

lemma wordChar_not_special:
  "isWordChar c \<Longrightarrow> c \<noteq> CHR ''{'' \<and> c \<noteq> CHR ''}'' \<and> c \<noteq> CHR ''#'' \<and> c \<noteq> CHR ''/''
     \<and> c \<noteq> CHR ''@'' \<and> c \<noteq> CHR ''$'' \<and> \<not> isSpace c"
  by (auto simp: isWordChar_def isSpace_def)

lemma isWord_braceFree: "isWord w \<Longrightarrow> CHR ''{'' \<notin> set w"
  using wordChar_not_special by (auto simp: isWord_def list_all_iff)

lemma takeWhile_word: "list_all isWordChar w \<Longrightarrow> takeWhile isWordChar (w @ CHR ''}'' # s) = w"
  by (induction w) (auto simp: isWordChar_def)

lemma dropWhile_word:
  "list_all isWordChar w \<Longrightarrow> dropWhile isWordChar (w @ CHR ''}'' # s) = CHR ''}'' # s"
  by (induction w) (auto simp: isWordChar_def)

lemma matchVariable_word:
  "isWord w \<Longrightarrow> matchVariable (''{{'' @ w @ ''}}'' @ s) = Some (w, s)"
  by (simp add: matchVariable_def isWord_def takeWhile_word dropWhile_word)

lemma matchHelper_word:
  "isWord w \<Longrightarrow> matchHelper (''{{'' @ w @ ''}}'' @ s) = Some ((w, None), s)"
  by (simp add: matchHelper_def isWord_def takeWhile_word dropWhile_word)

lemma opensWithBraces_matchVariable: "opensWithBraces matchVariable"
  by (simp add: opensWithBraces_def matchVariable_def)

lemma opensWithBraces_matchHelper: "opensWithBraces matchHelper"
  by (simp add: opensWithBraces_def matchHelper_def)

lemma matchBlockHead_braces: "\<not> startsWith ''{{'' s \<Longrightarrow> matchBlockHead kw s = None"
  by (cases s; cases "tl s") (auto simp: matchBlockHead_def)

lemma opensWithBraces_matchBlock: "opensWithBraces (matchBlock kw)"
  by (simp add: opensWithBraces_def matchBlock_def matchBlockHead_braces)

lemma opensWithBraces_matchIfElse: "opensWithBraces matchIfElse"
  by (simp add: opensWithBraces_def matchIfElse_def matchBlockHead_braces)

lemma expandReplacement_plain:
  "CHR ''$'' \<notin> set rep \<Longrightarrow> expandReplacement rep matched preceding following = rep"
  by (induction rep matched preceding following rule: expandReplacement.induct) auto

lemma replaceAllStr_prefix:
  "CHR ''{'' \<notin> set p \<Longrightarrow>
   replaceAllStr (CHR ''{'' # pat) rep acc (p @ s) = p @ replaceAllStr (CHR ''{'' # pat) rep (acc @ p) s"
  by (induction p arbitrary: acc) auto

lemma replaceAllStr_hit:
  "pat \<noteq> [] \<Longrightarrow>
   replaceAllStr pat rep acc (pat @ s) =
     expandReplacement rep pat acc s @ replaceAllStr pat rep (acc @ pat) s"
  by (cases pat) auto

lemma startsWith_group:
  assumes "CHR ''}'' \<notin> set p" and "CHR ''}'' \<notin> set x"
  shows "startsWith (p @ ''}}'') (x @ ''}}'' @ s) \<longleftrightarrow> p = x"
  using assms
proof (induction p arbitrary: x)
  case Nil
  then show ?case by (cases x) auto
next
  case (Cons a p)
  then show ?case by (cases x) auto
qed

lemma replaceAllStr_other_group:
  assumes "CHR ''}'' \<notin> set p" and "CHR ''}'' \<notin> set x" and "CHR ''{'' \<notin> set x" and "p \<noteq> x"
  shows "replaceAllStr (''{{'' @ p @ ''}}'') rep acc (''{{'' @ x @ ''}}'' @ s) =
           ''{{'' @ x @ ''}}'' @ replaceAllStr (''{{'' @ p @ ''}}'') rep (acc @ ''{{'' @ x @ ''}}'') s"
proof -
  have first: "\<not> startsWith (''{{'' @ p @ ''}}'') (''{{'' @ x @ ''}}'' @ s)"
    using startsWith_group [OF assms(1,2)] assms(4) by simp
  have second: "\<not> startsWith (''{{'' @ p @ ''}}'') (''{'' @ x @ ''}}'' @ s)"
    using assms(3) by (cases x) auto
  have "CHR ''{'' \<notin> set (x @ ''}}'')"
    using assms(3) by simp
  from replaceAllStr_prefix [OF this, of "CHR ''{'' # p @ ''}}''" rep "acc @ ''{{''" s]
  have third: "replaceAllStr (''{{'' @ p @ ''}}'') rep (acc @ ''{{'') (x @ ''}}'' @ s)
      = x @ ''}}'' @ replaceAllStr (''{{'' @ p @ ''}}'') rep (acc @ ''{{'' @ x @ ''}}'') s"
    by simp
  from first second third show ?thesis by simp
qed

lemma plainValue_toStr: "plainValue v \<Longrightarrow> toStr v = Inr (textOf v)"
  by (auto simp: plainValue_def textOf_def split: sum.splits)

lemma plainValue_text: "plainValue v \<Longrightarrow> plainText (textOf v)"
  by (auto simp: plainValue_def textOf_def split: sum.splits)

lemma isLiteralKey_braces: "isLiteralKey k \<Longrightarrow> CHR ''{'' \<notin> set k \<and> CHR ''}'' \<notin> set k"
  by (auto simp: isLiteralKey_def list_all_iff)

lemma isWord_closeFree: "isWord w \<Longrightarrow> CHR ''}'' \<notin> set w"
  using wordChar_not_special by (auto simp: isWord_def list_all_iff)

lemma showNat_digits: "set (showNat n) \<subseteq> set ''0123456789''"
proof (induction n rule: showNat.induct)
  case (1 n)
  have d: "digitChar k \<in> set ''0123456789''" for k
    unfolding digitChar_def by (rule nth_mem) simp
  show ?case
  proof (cases "n < 10")
    case True
    then show ?thesis using d by (subst showNat.simps) simp
  next
    case False
    with 1 d show ?thesis by (subst showNat.simps) auto
  qed
qed

lemma showNat_plain: "CHR ''{'' \<notin> set (showNat n) \<and> CHR ''$'' \<notin> set (showNat n)"
  using showNat_digits [of n] by auto

lemma mapE_Inr: "(\<And>a. a \<in> set xs \<Longrightarrow> f a = Inr (g a)) \<Longrightarrow> mapE f xs = Inr (map g xs)"
  by (induction xs) simp_all

lemma splitAt_prefix:
  "CHR ''{'' \<notin> set p \<Longrightarrow>
   splitAt (CHR ''{'' # pat) (p @ s) = map_option (\<lambda>(a, b). (p @ a, b)) (splitAt (CHR ''{'' # pat) s)"
proof (induction p)
  case Nil
  then show ?case by (simp add: option.map_ident case_prod_unfold)
next
  case (Cons c p)
  then show ?case by (auto split: option.splits)
qed

lemma splitAt_hit: "pat \<noteq> [] \<Longrightarrow> splitAt pat (pat @ s) = Some ([], s)"
  by (cases pat) simp_all

lemma splitAt_other_group:
  assumes "CHR ''{'' \<notin> set x" and "x \<noteq> []" and "hd x \<noteq> CHR ''/''"
  shows "splitAt ''{{/each}}'' (''{{'' @ x @ ''}}'' @ s) =
           map_option (\<lambda>(a, b). (''{{'' @ x @ ''}}'' @ a, b)) (splitAt ''{{/each}}'' s)"
proof -
  from assms(2) obtain c cs where x: "x = c # cs" by (cases x) auto
  with assms have c: "c \<noteq> CHR ''/''" "c \<noteq> CHR ''{''" by auto
  have "CHR ''{'' \<notin> set (cs @ ''}}'')" using assms(1) x by simp
  from splitAt_prefix [OF this, of "''{/each}}''" s] c x show ?thesis
    by (auto split: option.splits)
qed

lemma matchBlockHead_each:
  assumes "isWord v"
  shows "matchBlockHead ''each'' (''{{#each '' @ v @ ''}}'' @ s) = Some (v, s)"
proof -
  from assms obtain c cs where v: "v = c # cs" and c: "isWordChar c"
    by (cases v) (auto simp: isWord_def)
  then have ns: "\<not> isSpace c" using wordChar_not_special by blast
  from assms have all: "list_all isWordChar v" by (simp add: isWord_def)
  have sp: "isSpace CHR '' ''" by (simp add: isSpace_def)
  have tw: "takeWhile isSpace (CHR '' '' # v @ ''}}'' @ s) = '' ''"
    and dw: "dropWhile isSpace (CHR '' '' # v @ ''}}'' @ s) = v @ ''}}'' @ s"
    using ns sp v by simp_all
  show ?thesis
    using tw dw takeWhile_word [OF all, of "CHR ''}'' # s"] dropWhile_word [OF all, of "CHR ''}'' # s"] assms
    by (simp add: matchBlockHead_def isWord_def)
qed

lemma matchBlockHead_not_hash:
  "x \<noteq> [] \<Longrightarrow> hd x \<noteq> CHR ''#'' \<Longrightarrow> matchBlockHead kw (''{{'' @ x @ s) = None"
  by (cases x) (auto simp: matchBlockHead_def)

lemma matchVariable_not_word:
  "x \<noteq> [] \<Longrightarrow> \<not> isWordChar (hd x) \<Longrightarrow> matchVariable (''{{'' @ x @ s) = None"
  by (cases x) (auto simp: matchVariable_def)

lemma itemsText_Nil [simp]: "itemsText [] = []"
  by (simp add: itemsText_def)

lemma itemsText_Cons [simp]: "itemsText (i # items) = itemText i @ itemsText items"
  by (simp add: itemsText_def)

lemma itemsText_append [simp]: "itemsText (xs @ ys) = itemsText xs @ itemsText ys"
  by (simp add: itemsText_def)

lemma replaceAllFn_step:
  assumes "opensWithBraces m" and "CHR ''{'' \<notin> set x" and "marks m f x r"
  shows "replaceAllFn m f (''{{'' @ x @ ''}}'' @ s) =
           (case r of Inl e \<Rightarrow> Inl e
            | Inr u \<Rightarrow> (case replaceAllFn m f s of Inl e \<Rightarrow> Inl e | Inr t \<Rightarrow> Inr (u @ t)))"
proof -
  let ?a = "''{{'' @ x @ ''}}''"
  from assms(3) have "(m (?a @ s) = None \<and> r = Inr ?a)
      \<or> (\<exists>g. m (?a @ s) = Some (g, s) \<and> f ?a g = r)"
    unfolding marks_def by (simp only: append_assoc)
  then show ?thesis
  proof
    assume a: "m (?a @ s) = None \<and> r = Inr ?a"
    then have "m (''{{'' @ x @ ''}}'' @ s) = None" by (simp only: append_assoc)
    from replaceAllFn_skip [OF assms(1,2) this, of f] a show ?thesis
      by (simp split: sum.splits)
  next
    assume "\<exists>g. m (?a @ s) = Some (g, s) \<and> f ?a g = r"
    then obtain g where g: "m (?a @ s) = Some (g, s)" and r: "f ?a g = r" by blast
    have "?a \<noteq> []" by simp
    with g have "replaceAllFn m f (?a @ s) =
       (case f ?a g of
          Inl e \<Rightarrow> Inl e
        | Inr r \<Rightarrow> (case replaceAllFn m f s of Inl e \<Rightarrow> Inl e | Inr t \<Rightarrow> Inr (r @ t)))"
      by (rule replaceAllFn_match [where m = m and a = ?a and rest = s and g = g])
    then show ?thesis
      unfolding r by (simp only: append_assoc)
  qed
qed

lemma replaceAllFn_items:
  assumes nb: "opensWithBraces m"
  shows "list_all braceFree items \<Longrightarrow>
         (\<And>x. Mark x \<in> set items \<Longrightarrow> marks m f x (act x)) \<Longrightarrow>
         replaceAllFn m f (itemsText items @ s) =
           (case mapE (scanItem act) items of
              Inl e \<Rightarrow> Inl e
            | Inr parts \<Rightarrow>
                (case replaceAllFn m f s of Inl e \<Rightarrow> Inl e | Inr t \<Rightarrow> Inr (concat parts @ t)))"
proof (induction items)
  case Nil
  then show ?case by (simp split: sum.splits)
next
  case (Cons i items)
  from Cons.prems have bf: "list_all braceFree items" by simp
  have ih: "replaceAllFn m f (itemsText items @ s) =
           (case mapE (scanItem act) items of
              Inl e \<Rightarrow> Inl e
            | Inr parts \<Rightarrow>
                (case replaceAllFn m f s of Inl e \<Rightarrow> Inl e | Inr t \<Rightarrow> Inr (concat parts @ t)))"
    by (rule Cons.IH [OF bf]) (use Cons.prems(2) in auto)
  show ?case
  proof (cases i)
    case (Text t)
    with Cons.prems have "CHR ''{'' \<notin> set t" by simp
    from replaceAllFn_prefix [OF nb this, of f "itemsText items @ s"] ih Text show ?thesis
      by (simp split: sum.splits)
  next
    case (Mark x)
    with Cons.prems have x: "CHR ''{'' \<notin> set x" and mk: "marks m f x (act x)" by simp_all
    from replaceAllFn_step [OF nb x mk, of "itemsText items @ s"] ih Mark show ?thesis
      by (simp split: sum.splits)
  qed
qed

lemma replaceAllStr_items:
  assumes "CHR ''}'' \<notin> set p" and "CHR ''$'' \<notin> set rep"
  shows "list_all braceFree items \<Longrightarrow> list_all closeFree items \<Longrightarrow>
         replaceAllStr (''{{'' @ p @ ''}}'') rep acc (itemsText items)
           = itemsText (map (\<lambda>it. if it = Mark p then Text rep else it) items)"
proof (induction items arbitrary: acc)
  case Nil
  then show ?case by simp
next
  case (Cons i items)
  from Cons.prems have bf: "list_all braceFree items" and cf: "list_all closeFree items"
    by simp_all
  note ih = Cons.IH [OF bf cf]
  show ?case
  proof (cases i)
    case (Text t)
    with Cons.prems have t: "CHR ''{'' \<notin> set t" by simp
    from replaceAllStr_prefix [OF t, of "CHR ''{'' # p @ ''}}''" rep acc "itemsText items"]
      ih [of "acc @ t"] Text
    show ?thesis by simp
  next
    case (Mark x)
    with Cons.prems have x: "CHR ''{'' \<notin> set x" and xc: "CHR ''}'' \<notin> set x" by simp_all
    show ?thesis
    proof (cases "x = p")
      case True
      have "replaceAllStr (''{{'' @ p @ ''}}'') rep acc ((''{{'' @ p @ ''}}'') @ itemsText items)
        = expandReplacement rep (''{{'' @ p @ ''}}'') acc (itemsText items)
          @ replaceAllStr (''{{'' @ p @ ''}}'') rep (acc @ ''{{'' @ p @ ''}}'') (itemsText items)"
        by (rule replaceAllStr_hit) simp
      with True Mark ih [of "acc @ ''{{'' @ p @ ''}}''"] show ?thesis
        by (simp add: expandReplacement_plain [OF assms(2)])
    next
      case False
      then have ne: "p \<noteq> x" by blast
      from replaceAllStr_other_group [OF assms(1) xc x ne, of rep acc "itemsText items"]
        ih [of "acc @ ''{{'' @ x @ ''}}''"] False Mark
      show ?thesis by simp
    qed
  qed
qed

lemma replaced_free:
  assumes "CHR ''{'' \<notin> set rep"
  shows "list_all braceFree items \<Longrightarrow>
         list_all braceFree (map (\<lambda>it. if it = Mark p then Text rep else it) items)"
    and "list_all closeFree items \<Longrightarrow>
         list_all closeFree (map (\<lambda>it. if it = Mark p then Text rep else it) items)"
  using assms by (induction items) auto

lemma replaceEntries_items:
  "list_all (\<lambda>(k, v). isLiteralKey k \<and> plainValue v) kvs \<Longrightarrow>
   list_all braceFree items \<Longrightarrow> list_all closeFree items \<Longrightarrow>
   replaceEntries kvs (itemsText items) = Inr (itemsText (map (entryItem kvs) items))"
proof (induction kvs arbitrary: items)
  case Nil
  have "entryItem [] it = it" for it
    by (cases it) simp_all
  then have "map (entryItem []) items = items"
    by (simp add: map_idI)
  then show ?case by simp
next
  case (Cons a kvs)
  obtain k v where a: "a = (k, v)" by (cases a)
  with Cons.prems have lit: "isLiteralKey k" and pv: "plainValue v"
    and rest: "list_all (\<lambda>(k, v). isLiteralKey k \<and> plainValue v) kvs"
    by auto
  from plainValue_text [OF pv] have d: "CHR ''$'' \<notin> set (textOf v)" and b: "CHR ''{'' \<notin> set (textOf v)"
    by (simp_all add: plainText_def)
  let ?items = "map (\<lambda>it. if it = Mark k then Text (textOf v) else it) items"
  have step: "replaceAllStr (''{{'' @ k @ ''}}'') (textOf v) [] (itemsText items) = itemsText ?items"
    using isLiteralKey_braces [OF lit] d Cons.prems(2,3) by (intro replaceAllStr_items) simp_all
  have ih: "replaceEntries kvs (itemsText ?items) = Inr (itemsText (map (entryItem kvs) ?items))"
    by (rule Cons.IH [OF rest replaced_free(1) [OF b Cons.prems(2)] replaced_free(2) [OF b Cons.prems(3)]])
  have one: "entryItem kvs (if it = Mark k then Text (textOf v) else it)
                   = entryItem ((k, v) # kvs) it" for it
    by (cases it) auto
  have eq: "map (entryItem kvs) ?items = map (entryItem ((k, v) # kvs)) items"
    unfolding map_map comp_def one ..
  have "replaceEntries (a # kvs) (itemsText items) = replaceEntries kvs (itemsText ?items)"
    using a lit step by (simp add: plainValue_toStr [OF pv])
  then show ?case
    unfolding ih eq a .
qed

lemma eachIteration_items:
  assumes pi: "plainItem e" and bf: "list_all braceFree body" and cf: "list_all closeFree body"
  shows "eachIteration (itemsText body) n e i = Inr (itemsText (map (loopItem n e i) body))"
proof -
  from pi have pv: "plainValue e" by (simp add: plainItem_def)
  from plainValue_text [OF pv] have te: "CHR ''$'' \<notin> set (textOf e)" "CHR ''{'' \<notin> set (textOf e)"
    by (simp_all add: plainText_def)
  let ?first = "if i = 0 then ''true'' else ''false''"
  let ?last = "if int i = int n - 1 then ''true'' else ''false''"
  let ?r1 = "\<lambda>it. if it = Mark ''this'' then Text (textOf e) else it"
  let ?r2 = "\<lambda>it. if it = Mark ''@index'' then Text (showNat i) else it"
  let ?r3 = "\<lambda>it. if it = Mark ''@first'' then Text ?first else it"
  let ?r4 = "\<lambda>it. if it = Mark ''@last'' then Text ?last else it"
  let ?b1 = "map ?r1 body"
  let ?b2 = "map ?r2 ?b1"
  let ?b3 = "map ?r3 ?b2"
  let ?b4 = "map ?r4 ?b3"
  have ti: "CHR ''{'' \<notin> set (showNat i)" using showNat_plain [of i] by simp
  have tf: "CHR ''{'' \<notin> set ?first" by simp
  have tl: "CHR ''{'' \<notin> set ?last" by simp
  have f1: "list_all braceFree ?b1" "list_all closeFree ?b1"
    by (rule replaced_free(1) [OF te(2) bf], rule replaced_free(2) [OF te(2) cf])
  have f2: "list_all braceFree ?b2" "list_all closeFree ?b2"
    by (rule replaced_free(1) [OF ti f1(1)], rule replaced_free(2) [OF ti f1(2)])
  have f3: "list_all braceFree ?b3" "list_all closeFree ?b3"
    by (rule replaced_free(1) [OF tf f2(1)], rule replaced_free(2) [OF tf f2(2)])
  have f4: "list_all braceFree ?b4" "list_all closeFree ?b4"
    by (rule replaced_free(1) [OF tl f3(1)], rule replaced_free(2) [OF tl f3(2)])
  have c1: "replaceAllStr ''{{this}}'' (textOf e) [] (itemsText body) = itemsText ?b1"
    using replaceAllStr_items [of "''this''" "textOf e" body "[]"] te bf cf by simp
  have c2: "replaceAllStr ''{{@index}}'' (showNat i) [] (itemsText ?b1) = itemsText ?b2"
    using replaceAllStr_items [of "''@index''" "showNat i" ?b1 "[]"] showNat_plain [of i] f1 by simp
  have c3: "replaceAllStr ''{{@first}}'' ?first [] (itemsText ?b2) = itemsText ?b3"
    using replaceAllStr_items [of "''@first''" ?first ?b2 "[]"] f2 by simp
  have c4: "replaceAllStr ''{{@last}}'' ?last [] (itemsText ?b3) = itemsText ?b4"
    using replaceAllStr_items [of "''@last''" ?last ?b3 "[]"] f3 by simp
  have last: "(int i = int n - 1) = (Suc i = n)" by auto
  have ent: "(case objectEntries e of None \<Rightarrow> Inr (itemsText ?b4)
              | Some kvs \<Rightarrow> replaceEntries kvs (itemsText ?b4))
             = Inr (itemsText (map (loopItem n e i) body))"
  proof (cases "objectEntries e")
    case None
    have one: "?r4 (?r3 (?r2 (?r1 it))) = loopItem n e i it" for it
      by (cases it) (simp_all add: fieldOf_def None last)
    have eq: "?b4 = map (loopItem n e i) body"
      unfolding map_map comp_def one ..
    show ?thesis
      unfolding None option.case eq ..
  next
    case (Some kvs)
    from pi Some have ents: "list_all (\<lambda>(k, v). isLiteralKey k \<and> plainValue v) kvs"
      by (simp add: plainItem_def)
    have one: "entryItem kvs (?r4 (?r3 (?r2 (?r1 it)))) = loopItem n e i it" for it
      by (cases it) (simp_all add: fieldOf_def Some last)
    have eq: "map (entryItem kvs) ?b4 = map (loopItem n e i) body"
      unfolding map_map comp_def one ..
    show ?thesis
      unfolding Some option.case replaceEntries_items [OF ents f4] eq ..
  qed
  show ?thesis
    unfolding eachIteration_def plainValue_toStr [OF pv] bindE_Inr Let_def c1 c2 c3 c4
    by (rule ent)
qed

lemma pieceText_flatten: "itemsText (flatten p) = pieceText p"
  by (cases p) (simp_all add: eachBlock_def)

lemma piecesText_flatten: "itemsText (concat (map flatten ps)) = piecesText ps"
  by (induction ps) (simp_all add: piecesText_def pieceText_flatten)

lemma getProp_held:
  "\<not> inheritedName x \<Longrightarrow>
   getProp variables x = (case held variables x of Some v \<Rightarrow> v | None \<Rightarrow> JUndefined)"
  by (auto simp: getProp_def held_def inheritedName_def split: option.splits)

lemma held_defined: "held variables x = Some v \<Longrightarrow> v \<noteq> JUndefined"
  by (auto simp: held_def split: option.splits if_splits)

lemma marks_variable_ref:
  assumes "plainRef variables x"
  shows "marks matchVariable (substituteVariable variables) x
           (Inr (itemText (substituted variables (Mark x))))"
proof -
  from assms have w: "isWord x" and ni: "\<not> inheritedName x" by (simp_all add: plainRef_def)
  have call: "substituteVariable variables (''{{'' @ x @ ''}}'') x
                = Inr (itemText (substituted variables (Mark x)))"
  proof (cases "held variables x")
    case None
    with w getProp_held [OF ni, of variables] show ?thesis
      by (simp add: substituteVariable_def)
  next
    case (Some v)
    with assms obtain t where t: "toStr v = Inr t" by (auto simp: plainRef_def split: sum.splits)
    then have "textOf v = t" by (simp add: textOf_def)
    with Some w t getProp_held [OF ni, of variables] held_defined [OF Some] show ?thesis
      by (simp add: substituteVariable_def)
  qed
  show ?thesis
    unfolding marks_def using matchVariable_word [OF w] call by blast
qed

lemma marks_variable_other:
  assumes "x \<noteq> []" and "\<not> isWordChar (hd x)"
  shows "marks matchVariable (substituteVariable variables) x
           (Inr (itemText (substituted variables (Mark x))))"
proof -
  from assms have "\<not> isWord x" by (cases x) (auto simp: isWord_def)
  then show ?thesis
    unfolding marks_def using matchVariable_not_word [OF assms] by simp
qed

lemma mapE_scan_Inr:
  assumes "\<And>x. act x = Inr (itemText (g (Mark x)))" and "\<And>t. g (Text t) = Text t"
  shows "mapE (scanItem act) items = Inr (map (\<lambda>it. itemText (g it)) items)"
proof (induction items)
  case Nil
  show ?case by simp
next
  case (Cons it items)
  then show ?case by (cases it) (simp_all add: assms)
qed

lemma replaceAllFn_items_pure:
  assumes "opensWithBraces m" and "list_all braceFree items"
    and "\<And>x. Mark x \<in> set items \<Longrightarrow> marks m f x (Inr (itemText (g (Mark x))))"
    and "\<And>t. g (Text t) = Text t"
  shows "replaceAllFn m f (itemsText items) = Inr (itemsText (map g items))"
proof -
  let ?act = "\<lambda>x. Inr (itemText (g (Mark x)))"
  have pure: "mapE (scanItem ?act) items = Inr (map (\<lambda>it. itemText (g it)) items)"
    by (rule mapE_scan_Inr [OF refl assms(4)])
  have "replaceAllFn m f (itemsText items @ []) =
           (case mapE (scanItem ?act) items of
              Inl e \<Rightarrow> Inl e
            | Inr parts \<Rightarrow>
                (case replaceAllFn m f [] of Inl e \<Rightarrow> Inl e | Inr t \<Rightarrow> Inr (concat parts @ t)))"
    by (rule replaceAllFn_items [OF assms(1,2)]) (rule assms(3))
  then show ?thesis
    unfolding pure by (simp add: itemsText_def comp_def)
qed

lemma pass1_items:
  assumes "list_all braceFree items"
    and "\<And>x. Mark x \<in> set items \<Longrightarrow> passable variables x"
  shows "replaceAllFn matchVariable (substituteVariable variables) (itemsText items)
           = Inr (itemsText (map (substituted variables) items))"
proof (rule replaceAllFn_items_pure [OF opensWithBraces_matchVariable assms(1)])
  fix x assume "Mark x \<in> set items"
  from assms(2) [OF this]
  show "marks matchVariable (substituteVariable variables) x
              (Inr (itemText (substituted variables (Mark x))))"
    using marks_variable_ref marks_variable_other
    unfolding passable_def by blast
qed simp

lemma marks_none:
  "(\<And>s. m (''{{'' @ x @ ''}}'' @ s) = None) \<Longrightarrow> marks m f x (Inr (itemText (Mark x)))"
  by (simp add: marks_def)

lemma matchBlockHead_quiet:
  assumes "quiet x" and "kw = ''if'' \<or> kw = ''unless''"
  shows "matchBlockHead kw (''{{'' @ x @ s) = None"
proof (cases "hd x = CHR ''#''")
  case False
  with assms(1) show ?thesis
    by (intro matchBlockHead_not_hash) (simp_all add: quiet_def)
next
  case True
  with assms(1) obtain v where "x = ''#each '' @ v" by (auto simp: quiet_def)
  with assms(2) show ?thesis by (auto simp: matchBlockHead_def)
qed

lemma pass2_items:
  assumes "list_all braceFree items"
    and "\<And>x. Mark x \<in> set items \<Longrightarrow> quiet x"
  shows "processConditionalBlocks (itemsText items) variables = Inr (itemsText items)"
proof -
  have a: "replaceAllFn matchIfElse f (itemsText items) = Inr (itemsText (map (\<lambda>it. it) items))" for f
  proof (rule replaceAllFn_items_pure [OF opensWithBraces_matchIfElse assms(1)])
    fix x assume "Mark x \<in> set items"
    from assms(2) [OF this] have "matchBlockHead ''if'' (''{{'' @ x @ ''}}'' @ s) = None" for s
      by (intro matchBlockHead_quiet) simp_all
    then show "marks matchIfElse f x (Inr (itemText (Mark x)))"
      by (intro marks_none) (simp only: matchIfElse_def option.case)
  qed simp
  have b: "replaceAllFn (matchBlock kw) f (itemsText items) = Inr (itemsText (map (\<lambda>it. it) items))"
    if "kw = ''if'' \<or> kw = ''unless''" for f kw
  proof (rule replaceAllFn_items_pure [OF opensWithBraces_matchBlock assms(1)])
    fix x assume "Mark x \<in> set items"
    from assms(2) [OF this] that have "matchBlockHead kw (''{{'' @ x @ ''}}'' @ s) = None" for s
      by (intro matchBlockHead_quiet)
    then show "marks (matchBlock kw) f x (Inr (itemText (Mark x)))"
      by (intro marks_none) (simp only: matchBlock_def option.case)
  qed simp
  show ?thesis
    unfolding processConditionalBlocks_def by (simp only: a b bindE_Inr simp_thms map_ident)
qed

lemma splitAt_items:
  "list_all braceFree body \<Longrightarrow> (\<And>x. Mark x \<in> set body \<Longrightarrow> x \<noteq> [] \<and> hd x \<noteq> CHR ''/'') \<Longrightarrow>
   splitAt ''{{/each}}'' (itemsText body @ ''{{/each}}'' @ rest) = Some (itemsText body, rest)"
proof (induction body)
  case Nil
  have "splitAt ''{{/each}}'' (''{{/each}}'' @ rest) = Some ([], rest)"
    by (rule splitAt_hit) simp
  then show ?case by simp
next
  case (Cons it body)
  from Cons.prems have ih: "splitAt ''{{/each}}'' (itemsText body @ ''{{/each}}'' @ rest)
      = Some (itemsText body, rest)"
    by (intro Cons.IH) auto
  show ?case
  proof (cases it)
    case (Text t)
    with Cons.prems have "CHR ''{'' \<notin> set t" by simp
    from splitAt_prefix [OF this, of "''{/each}}''" "itemsText body @ ''{{/each}}'' @ rest"] ih Text
    show ?thesis by simp
  next
    case (Mark x)
    with Cons.prems have "CHR ''{'' \<notin> set x" "x \<noteq> []" "hd x \<noteq> CHR ''/''" by auto
    from splitAt_other_group [OF this, of "itemsText body @ ''{{/each}}'' @ rest"] ih Mark
    show ?thesis by simp
  qed
qed

lemma matchBlock_items:
  assumes "isWord v" and "list_all braceFree body"
    and "\<And>x. Mark x \<in> set body \<Longrightarrow> x \<noteq> [] \<and> hd x \<noteq> CHR ''/''"
  shows "matchBlock ''each'' (eachBlock v (itemsText body) @ rest) = Some ((v, itemsText body), rest)"
proof -
  have "matchBlock ''each'' (''{{#each '' @ v @ ''}}'' @ itemsText body @ ''{{/each}}'' @ rest)
         = Some ((v, itemsText body), rest)"
    unfolding matchBlock_def
    using splitAt_items [OF assms(2,3), of rest]
    by (simp only: matchBlockHead_each [OF assms(1)] option.case prod.case) simp
  then show ?thesis by (simp add: eachBlock_def)
qed

lemma getProp_array:
  "(case getProp variables v of JArr es \<Rightarrow> f es | _ \<Rightarrow> d)
     = (case map_of variables v of Some (JArr es) \<Rightarrow> f es | _ \<Rightarrow> d)"
  by (auto simp: getProp_def objectPrototype_def split: option.splits jsval.splits)

lemma itemsText_concat: "itemsText (concat xss) = concat (map itemsText xss)"
  by (induction xss) simp_all

lemma loop_callback:
  assumes "loopable variables (Loop v body)"
  shows "(case getProp variables v of
            JArr items \<Rightarrow>
              bindE (mapE (\<lambda>(item, index). eachIteration (itemsText body) (length items) item index)
                       (zip items [0..<length items]))
                (\<lambda>parts. Inr (concat parts))
          | _ \<Rightarrow> Inr [])
         = Inr (itemsText (looped variables (Loop v body)))"
proof -
  have "bindE (mapE (\<lambda>(item, index). eachIteration (itemsText body) (length es) item index)
                       (zip es [0..<length es]))
                (\<lambda>parts. Inr (concat parts))
        = Inr (itemsText (concat (map (\<lambda>(e, i). map (loopItem (length es) e i) body)
                                     (zip es [0..<length es]))))"
    if es: "map_of variables v = Some (JArr es)" for es
  proof -
    from assms es have pl: "list_all plainItem es" by simp
    from assms have bf: "list_all braceFree body" and cf: "list_all closeFree body" by simp_all
    have "mapE (\<lambda>(item, index). eachIteration (itemsText body) (length es) item index)
            (zip es [0..<length es])
          = Inr (map (\<lambda>(e, i). itemsText (map (loopItem (length es) e i) body)) (zip es [0..<length es]))"
    proof (rule mapE_Inr)
      fix a assume a: "a \<in> set (zip es [0..<length es])"
      obtain e i where ei: "a = (e, i)" by (cases a)
      with a pl have "plainItem e" by (auto simp: list_all_iff dest: set_zip_leftD)
      from eachIteration_items [OF this bf cf] ei
      show "(case a of (item, index) \<Rightarrow> eachIteration (itemsText body) (length es) item index)
            = Inr (case a of (e, i) \<Rightarrow> itemsText (map (loopItem (length es) e i) body))"
        by simp
    qed
    then show ?thesis
      by (simp add: itemsText_concat comp_def case_prod_unfold)
  qed
  then show ?thesis
    unfolding getProp_array by (auto split: option.splits jsval.splits)
qed

lemma piecesText_Cons [simp]: "piecesText (p # ps) = pieceText p @ piecesText ps"
  by (simp add: piecesText_def)

lemma piecesText_Nil [simp]: "piecesText [] = []"
  by (simp add: piecesText_def)

lemma piecesText_append [simp]: "piecesText (ps @ qs) = piecesText ps @ piecesText qs"
  by (simp add: piecesText_def)

lemma pass3_pieces:
  "list_all (loopable variables) ps \<Longrightarrow>
   processLoopBlocks (piecesText ps) variables
     = Inr (itemsText (concat (map (looped variables) ps)))"
proof (induction ps)
  case Nil
  show ?case by (simp add: processLoopBlocks_def)
next
  case (Cons p ps)
  let ?f = "\<lambda>(matched :: string) (varName, content).
          case getProp variables varName of
            JArr items \<Rightarrow>
              bindE (mapE (\<lambda>(item, index). eachIteration content (length items) item index)
                       (zip items [0..<length items]))
                (\<lambda>parts. Inr (concat parts))
          | _ \<Rightarrow> Inr []"
  let ?m = "matchBlock ''each''"
  let ?out = "itemsText (concat (map (looped variables) ps))"
  from Cons have ih: "replaceAllFn ?m ?f (piecesText ps) = Inr ?out"
    by (simp add: processLoopBlocks_def)
  have "replaceAllFn ?m ?f (pieceText p @ piecesText ps)
          = Inr (itemsText (looped variables p) @ ?out)"
  proof (cases p)
    case (Flat it)
    show ?thesis
    proof (cases it)
      case (Text t)
      with Flat Cons.prems have "CHR ''{'' \<notin> set t" by simp
      from replaceAllFn_prefix [OF opensWithBraces_matchBlock this, of "''each''" ?f "piecesText ps"]
      show ?thesis
        unfolding ih Flat Text by simp
    next
      case (Mark x)
      with Flat Cons.prems have x: "CHR ''{'' \<notin> set x" "x \<noteq> []" "hd x \<noteq> CHR ''#''" by simp_all
      have "matchBlockHead ''each'' (''{{'' @ x @ ''}}'' @ s) = None" for s
        by (rule matchBlockHead_not_hash [OF x(2,3)])
      then have "marks ?m ?f x (Inr (itemText (Mark x)))"
        by (intro marks_none) (simp only: matchBlock_def option.case)
      from replaceAllFn_step [OF opensWithBraces_matchBlock x(1) this, of "piecesText ps"]
      show ?thesis
        unfolding ih Flat Mark by simp
    qed
  next
    case (Loop v body)
    with Cons.prems have lp: "loopable variables (Loop v body)" by simp
    then have w: "isWord v" and bf: "list_all braceFree body"
      and sl: "\<And>x. Mark x \<in> set body \<Longrightarrow> x \<noteq> [] \<and> hd x \<noteq> CHR ''/''"
      by simp_all
    let ?a = "eachBlock v (itemsText body)"
    have m: "?m (?a @ piecesText ps) = Some ((v, itemsText body), piecesText ps)"
      by (rule matchBlock_items [OF w bf sl])
    have ne: "?a \<noteq> []" by (simp add: eachBlock_def)
    have call: "?f ?a (v, itemsText body) = Inr (itemsText (looped variables (Loop v body)))"
      unfolding prod.case by (rule loop_callback [OF lp])
    have "replaceAllFn ?m ?f (?a @ piecesText ps) =
           (case ?f ?a (v, itemsText body) of
              Inl e \<Rightarrow> Inl e
            | Inr r \<Rightarrow> (case replaceAllFn ?m ?f (piecesText ps) of Inl e \<Rightarrow> Inl e | Inr t \<Rightarrow> Inr (r @ t)))"
      using m ne by (rule replaceAllFn_match)
    then show ?thesis
      unfolding call ih Loop by simp
  qed
  then show ?case
    by (simp add: processLoopBlocks_def)
qed

lemma pass4_items:
  assumes "list_all braceFree items" and "\<And>x. Mark x \<in> set items \<Longrightarrow> isWord x"
  shows "processHelperCalls eng now (itemsText items) variables = joined eng now variables items"
proof -
  let ?f = "\<lambda>(matched :: string) (helperName, argsString).
          case helpers eng helperName of
            None \<Rightarrow> Inr matched
          | Some helper \<Rightarrow>
              bindE (case argsString of
                       None \<Rightarrow> Inr []
                     | Some a \<Rightarrow> mapE (resolveArg variables) (splitWs a))
                (\<lambda>args. bindE (helper now args variables) toStr)"
  let ?act = "\<lambda>x. called eng now variables (Mark x)"
  have mk: "marks matchHelper ?f x (?act x)" if "Mark x \<in> set items" for x
  proof -
    from assms(2) [OF that] have w: "isWord x" .
    have "?f (''{{'' @ x @ ''}}'') (x, None) = ?act x"
      by (simp split: option.splits)
    with matchHelper_word [OF w] show ?thesis
      unfolding marks_def by blast
  qed
  have same: "mapE (scanItem ?act) items = mapE (called eng now variables) items"
  proof (rule mapE_cong [OF refl])
    fix it show "scanItem ?act it = called eng now variables it"
      by (cases it) simp_all
  qed
  have "replaceAllFn matchHelper ?f (itemsText items @ []) =
           (case mapE (scanItem ?act) items of
              Inl e \<Rightarrow> Inl e
            | Inr parts \<Rightarrow>
                (case replaceAllFn matchHelper ?f [] of Inl e \<Rightarrow> Inl e | Inr t \<Rightarrow> Inr (concat parts @ t)))"
    by (rule replaceAllFn_items [OF opensWithBraces_matchHelper assms(1)]) (rule mk)
  then show ?thesis
    unfolding same processHelperCalls_def joined_def
    by (simp add: bindE_def split: sum.splits)
qed

lemma wordOrMarker_shape:
  assumes "wordOrMarker x"
  shows "CHR ''{'' \<notin> set x" and "CHR ''}'' \<notin> set x" and "x \<noteq> []"
    and "hd x \<noteq> CHR ''#''" and "hd x \<noteq> CHR ''/''" and "quiet x"
proof -
  from assms show a: "CHR ''{'' \<notin> set x" and "CHR ''}'' \<notin> set x"
    using isWord_braceFree [of x] isWord_closeFree [of x]
    by (auto simp: wordOrMarker_def isMarker_def)
  from assms show ne: "x \<noteq> []"
    by (auto simp: wordOrMarker_def isMarker_def isWord_def)
  from assms have "isWordChar (hd x) \<or> hd x = CHR ''@''"
    by (cases x) (auto simp: wordOrMarker_def isMarker_def isWord_def)
  then show h: "hd x \<noteq> CHR ''#''" and "hd x \<noteq> CHR ''/''"
    using wordChar_not_special [of "hd x"] by auto
  from ne h show "quiet x" by (simp add: quiet_def)
qed

lemma plainRef_word: "plainRef variables x \<Longrightarrow> isWord x"
  by (simp add: plainRef_def)

lemma plainRef_passable: "plainRef variables x \<Longrightarrow> passable variables x"
  using isWord_braceFree [of x] by (simp add: passable_def plainRef_def)

lemma marker_passable: "isMarker x \<Longrightarrow> passable variables x"
  by (auto simp: passable_def isMarker_def isWordChar_def)

lemma substituted_ref:
  assumes "plainRef variables x"
  shows "braceFree (substituted variables (Mark x))"
    and "closeFree (substituted variables (Mark x))"
    and "substituted variables (Mark x) = Mark y \<Longrightarrow> y = x \<and> isWord x"
  using assms isWord_braceFree [of x] isWord_closeFree [of x]
  by (auto simp: plainRef_def textOf_def split: option.splits sum.splits)

lemma substituted_marker: "isMarker x \<Longrightarrow> substituted variables (Mark x) = Mark x"
  by (auto simp: isMarker_def isWord_def isWordChar_def)

lemma substituted_body:
  assumes "simpleBodyItem variables it"
  shows "braceFree (substituted variables it)"
    and "closeFree (substituted variables it)"
    and "substituted variables it = Mark y \<Longrightarrow> wordOrMarker y"
proof -
  show "braceFree (substituted variables it)"
  proof (cases it)
    case (Mark x)
    with assms substituted_ref(1) [of variables x] substituted_marker [of x variables] show ?thesis
      by (auto simp: isMarker_def)
  qed (use assms in simp)
  show "closeFree (substituted variables it)"
  proof (cases it)
    case (Mark x)
    with assms substituted_ref(2) [of variables x] substituted_marker [of x variables] show ?thesis
      by (auto simp: isMarker_def)
  qed simp
  show "wordOrMarker y" if "substituted variables it = Mark y"
  proof (cases it)
    case (Mark x)
    with assms that substituted_ref(3) [of variables x y] substituted_marker [of x variables] show ?thesis
      by (auto simp: wordOrMarker_def)
  qed (use that in simp)
qed

lemma plainItem_field: "plainItem e \<Longrightarrow> fieldOf x e = Some v \<Longrightarrow> plainValue v"
  by (auto simp: plainItem_def fieldOf_def list_all_iff split: option.splits dest!: map_of_SomeD)

lemma loopItem_out:
  assumes "plainItem e" and "braceFree it" and "\<And>y. it = Mark y \<Longrightarrow> wordOrMarker y"
  shows "braceFree (loopItem n e i it)" and "loopItem n e i it = Mark z \<Longrightarrow> isWord z"
proof -
  from assms(1) have te: "CHR ''{'' \<notin> set (textOf e)"
    using plainValue_text [of e] by (simp add: plainItem_def plainText_def)
  have fv: "CHR ''{'' \<notin> set (textOf v)" if "fieldOf x e = Some v" for x v
    using plainValue_text [OF plainItem_field [OF assms(1) that]] by (simp add: plainText_def)
  show "braceFree (loopItem n e i it)"
  proof (cases it)
    case (Mark x)
    with assms(2) te fv [of x] showNat_plain [of i] show ?thesis
      by (auto split: option.splits)
  qed (use assms(2) in simp)
  show "isWord z" if "loopItem n e i it = Mark z"
  proof (cases it)
    case (Mark x)
    with that have "z = x" and "x \<noteq> ''@index''" "x \<noteq> ''@first''" "x \<noteq> ''@last''"
      by (auto split: if_splits option.splits)
    with assms(3) [OF Mark] show ?thesis
      by (auto simp: wordOrMarker_def isMarker_def)
  qed (use that in simp)
qed

lemma looped_out:
  assumes "simplePiece variables p"
  shows "list_all braceFree (expand variables p)"
    and "Mark x \<in> set (expand variables p) \<Longrightarrow> isWord x"
proof -
  have both: "braceFree y \<and> (\<forall>z. y = Mark z \<longrightarrow> isWord z)" if y: "y \<in> set (expand variables p)" for y
  proof (cases p)
    case (Flat it)
    with y have yy: "y = substituted variables it"
      by (simp add: expand_def del: substituted.simps)
    show ?thesis
    proof (cases it)
      case (Text t)
      with Flat assms yy show ?thesis by simp
    next
      case (Mark w)
      with Flat assms have pr: "plainRef variables w" by simp
      from substituted_ref [OF pr] show ?thesis
        unfolding yy Mark by blast
    qed
  next
    case (Loop v body)
    show ?thesis
    proof (cases "map_of variables v")
      case None
      with Loop y show ?thesis by (simp add: expand_def)
    next
      case (Some val)
      show ?thesis
      proof (cases val)
        case (JArr es)
        with Some Loop assms have pl: "list_all plainItem es"
          and body: "list_all (simpleBodyItem variables) body" by simp_all
        from y Loop Some JArr
        obtain e i it where e: "e \<in> set es" and it: "it \<in> set body"
          and yy: "y = loopItem (length es) e i (substituted variables it)"
          by (auto simp add: expand_def dest: set_zip_leftD simp del: loopItem.simps substituted.simps)
        from e it pl body have pe: "plainItem e" and sb: "simpleBodyItem variables it"
          by (simp_all add: list_all_iff)
        from loopItem_out [OF pe substituted_body(1) [OF sb] substituted_body(3) [OF sb]]
        show ?thesis unfolding yy by blast
      qed (use Loop Some y in \<open>simp_all add: expand_def\<close>)
    qed
  qed
  from both show "list_all braceFree (expand variables p)"
    unfolding list_all_iff by blast
  from both show "Mark x \<in> set (expand variables p) \<Longrightarrow> isWord x" by blast
qed

lemma each_head_shape:
  assumes "isWord v"
  shows "CHR ''{'' \<notin> set (''#each '' @ v)" and "passable variables (''#each '' @ v)"
    and "quiet (''#each '' @ v)"
  using isWord_braceFree [OF assms]
  by (auto simp: passable_def quiet_def isWordChar_def)

lemma each_tail_shape:
  shows "passable variables ''/each''" and "quiet ''/each''"
  by (auto simp: passable_def quiet_def isWordChar_def)

lemma simpleBodyItem_in:
  assumes "simpleBodyItem variables it"
  shows "braceFree it" and "it = Mark x \<Longrightarrow> passable variables x"
proof -
  show "braceFree it"
  proof (cases it)
    case (Mark y)
    with assms isWord_braceFree [of y] show ?thesis
      by (auto simp: isMarker_def plainRef_def)
  qed (use assms in simp)
  show "passable variables x" if "it = Mark x"
    using assms that plainRef_passable marker_passable by auto
qed

lemma flat_in:
  assumes "simplePiece variables p"
  shows "list_all braceFree (flatten p)"
    and "Mark x \<in> set (flatten p) \<Longrightarrow> passable variables x"
proof -
  have both: "braceFree y \<and> (\<forall>z. y = Mark z \<longrightarrow> passable variables z)"
    if y: "y \<in> set (flatten p)" for y
  proof (cases p)
    case (Flat it)
    with y have yy: "y = it" by simp
    show ?thesis
    proof (cases it)
      case (Text t)
      with Flat assms yy show ?thesis by simp
    next
      case (Mark w)
      with Flat assms have pr: "plainRef variables w" by simp
      from plainRef_passable [OF pr] isWord_braceFree [OF plainRef_word [OF pr]] show ?thesis
        unfolding yy Mark by simp
    qed
  next
    case (Loop v body)
    with assms have w: "isWord v" and body: "list_all (simpleBodyItem variables) body"
      by simp_all
    from y Loop consider "y = Mark (''#each '' @ v)" | "y \<in> set body" | "y = Mark ''/each''"
      by auto
    then show ?thesis
    proof cases
      case 1
      with each_head_shape [OF w] show ?thesis by simp
    next
      case 2
      with body have "simpleBodyItem variables y" by (simp add: list_all_iff)
      from simpleBodyItem_in [OF this] show ?thesis by blast
    next
      case 3
      with each_tail_shape show ?thesis by simp
    qed
  qed
  from both show "list_all braceFree (flatten p)"
    unfolding list_all_iff by blast
  from both show "Mark x \<in> set (flatten p) \<Longrightarrow> passable variables x" by blast
qed

lemma flat_sub: "map (substituted variables) (flatten p) = flatten (subPiece variables p)"
  by (cases p) (simp_all add: isWord_def isWordChar_def)

lemma flat_mid:
  assumes "simplePiece variables p"
  shows "list_all braceFree (flatten (subPiece variables p))"
    and "Mark x \<in> set (flatten (subPiece variables p)) \<Longrightarrow> quiet x"
proof -
  have both: "braceFree y \<and> (\<forall>z. y = Mark z \<longrightarrow> quiet z)"
    if y: "y \<in> set (flatten (subPiece variables p))" for y
  proof (cases p)
    case (Flat it)
    with y have yy: "y = substituted variables it"
      by (simp del: substituted.simps)
    show ?thesis
    proof (cases it)
      case (Text t)
      with Flat assms yy show ?thesis by simp
    next
      case (Mark w)
      with Flat assms have pr: "plainRef variables w" by simp
      have "quiet z" if "substituted variables (Mark w) = Mark z" for z
        using substituted_ref(3) [OF pr that] wordOrMarker_shape(6) [of z]
        by (simp add: wordOrMarker_def)
      with substituted_ref(1) [OF pr] show ?thesis
        unfolding yy Mark by blast
    qed
  next
    case (Loop v body)
    with assms have w: "isWord v" and body: "list_all (simpleBodyItem variables) body"
      by simp_all
    from y Loop consider "y = Mark (''#each '' @ v)"
      | it where "it \<in> set body" "y = substituted variables it" | "y = Mark ''/each''"
      by (auto simp del: substituted.simps)
    then show ?thesis
    proof cases
      case 1
      with each_head_shape [OF w] show ?thesis by simp
    next
      case 2
      with body have sb: "simpleBodyItem variables it" by (simp add: list_all_iff)
      from substituted_body(1,3) [OF sb] wordOrMarker_shape(6) show ?thesis
        unfolding 2(2) by blast
    next
      case 3
      with each_tail_shape show ?thesis by simp
    qed
  qed
  from both show "list_all braceFree (flatten (subPiece variables p))"
    unfolding list_all_iff by blast
  from both show "Mark x \<in> set (flatten (subPiece variables p)) \<Longrightarrow> quiet x" by blast
qed

lemma loopable_sub:
  assumes "simplePiece variables p"
  shows "loopable variables (subPiece variables p)"
proof (cases p)
  case (Flat it)
  show ?thesis
  proof (cases it)
    case (Text t)
    with Flat assms show ?thesis by simp
  next
    case (Mark w)
    with Flat assms have pr: "plainRef variables w" by simp
    show ?thesis
    proof (cases "substituted variables (Mark w)")
      case (Text t)
      with substituted_ref(1) [OF pr] Flat Mark show ?thesis
        by (simp del: substituted.simps)
    next
      case (Mark z)
      from substituted_ref(3) [OF pr Mark] have "wordOrMarker z"
        by (simp add: wordOrMarker_def)
      from wordOrMarker_shape(1,3,4) [OF this] Flat \<open>it = Mark w\<close> Mark show ?thesis
        by (simp del: substituted.simps)
    qed
  qed
next
  case (Loop v body)
  with assms have w: "isWord v" and body: "list_all (simpleBodyItem variables) body"
    and es: "(case map_of variables v of Some (JArr es) \<Rightarrow> list_all plainItem es | _ \<Rightarrow> True)"
    by simp_all
  have bf: "list_all braceFree (map (substituted variables) body)"
    and cf: "list_all closeFree (map (substituted variables) body)"
    using body substituted_body(1,2) unfolding list_all_iff by auto
  have sl: "x \<noteq> [] \<and> hd x \<noteq> CHR ''/''" if "Mark x \<in> set (map (substituted variables) body)" for x
  proof -
    from that obtain it where "it \<in> set body" and m: "substituted variables it = Mark x"
      by (auto simp del: substituted.simps)
    with body have "simpleBodyItem variables it" by (simp add: list_all_iff)
    from substituted_body(3) [OF this m] wordOrMarker_shape(3,5) show ?thesis by blast
  qed
  from w bf cf sl es show ?thesis
    unfolding Loop subPiece.simps loopable.simps by blast
qed

lemma list_all_concat: "list_all P (concat xss) \<longleftrightarrow> (\<forall>xs \<in> set xss. list_all P xs)"
  by (induction xss) auto

lemma interpolate_pieces:
  assumes "list_all (simplePiece variables) ps"
  shows "interpolate eng now (piecesText ps) variables
           = joined eng now variables (concat (map (expand variables) ps))"
proof -
  let ?items0 = "concat (map flatten ps)"
  let ?qs = "map (subPiece variables) ps"
  let ?items1 = "concat (map flatten ?qs)"
  let ?items3 = "concat (map (expand variables) ps)"
  have sp: "simplePiece variables p" if "p \<in> set ps" for p
    using assms that by (simp add: list_all_iff)
  have b0: "list_all braceFree ?items0"
    unfolding list_all_concat using flat_in(1) sp by auto
  have m0: "passable variables x" if "Mark x \<in> set ?items0" for x
    using that flat_in(2) sp by auto
  have sub: "map (substituted variables) ?items0 = ?items1"
    by (simp add: map_concat comp_def flat_sub)
  have p1: "replaceAllFn matchVariable (substituteVariable variables) (piecesText ps)
              = Inr (piecesText ?qs)"
    using pass1_items [OF b0 m0] unfolding sub piecesText_flatten .
  have b1: "list_all braceFree ?items1"
    unfolding list_all_concat using flat_mid(1) sp by auto
  have m1: "quiet x" if "Mark x \<in> set ?items1" for x
    using that flat_mid(2) sp by auto
  have p2: "processConditionalBlocks (piecesText ?qs) variables = Inr (piecesText ?qs)"
    using pass2_items [OF b1 m1] unfolding piecesText_flatten .
  have l3: "list_all (loopable variables) ?qs"
    unfolding list_all_iff using loopable_sub sp by auto
  have p3: "processLoopBlocks (piecesText ?qs) variables = Inr (itemsText ?items3)"
  proof -
    have "expand variables = (\<lambda>x. looped variables (subPiece variables x))"
      by (simp add: expand_def fun_eq_iff)
    with pass3_pieces [OF l3] show ?thesis by (simp add: comp_def)
  qed
  have b3: "list_all braceFree ?items3"
    unfolding list_all_concat using looped_out(1) sp by auto
  have m3: "isWord x" if "Mark x \<in> set ?items3" for x
    using that looped_out(2) sp by auto
  have p4: "processHelperCalls eng now (itemsText ?items3) variables = joined eng now variables ?items3"
    by (rule pass4_items [OF b3 m3])
  show ?thesis
    unfolding interpolate_def p1 bindE_Inr p2 p3 p4 ..
qed

lemma mapE_append:
  "mapE f (xs @ ys) =
     (case mapE f xs of
        Inl e \<Rightarrow> Inl e
      | Inr a \<Rightarrow> (case mapE f ys of Inl e \<Rightarrow> Inl e | Inr b \<Rightarrow> Inr (a @ b)))"
  by (induction xs) (auto split: sum.splits)

lemma joined_append:
  "joined eng now variables (xs @ ys) =
     bindE (joined eng now variables xs)
       (\<lambda>a. bindE (joined eng now variables ys) (\<lambda>b. Inr (a @ b)))"
  by (simp add: joined_def mapE_append bindE_def split: sum.splits)

lemma joined_Text: "joined eng now variables [Text t] = Inr t"
  by (simp add: joined_def)

lemma joined_Mark:
  "joined eng now variables [Mark x] =
     (case helpers eng x of
        None \<Rightarrow> Inr (''{{'' @ x @ ''}}'')
      | Some helper \<Rightarrow> bindE (helper now [] variables) toStr)"
  by (simp add: joined_def bindE_def split: option.splits sum.splits)

lemma interpolate_around:
  assumes "list_all (simplePiece variables) before" and "simplePiece variables p"
    and "list_all (simplePiece variables) after"
  shows "interpolate eng now (piecesText before @ pieceText p @ piecesText after) variables
           = bindE (interpolate eng now (piecesText before) variables)
               (\<lambda>a. bindE (joined eng now variables (expand variables p))
                  (\<lambda>r. bindE (interpolate eng now (piecesText after) variables)
                     (\<lambda>b. Inr (a @ r @ b))))"
proof -
  from assms have all: "list_all (simplePiece variables) (before @ p # after)" by simp
  have "interpolate eng now (piecesText (before @ p # after)) variables
          = joined eng now variables
              (concat (map (expand variables) before) @ expand variables p
               @ concat (map (expand variables) after))"
    unfolding interpolate_pieces [OF all] by simp
  then show ?thesis
    unfolding interpolate_pieces [OF assms(1)] interpolate_pieces [OF assms(3)] joined_append
    by (simp add: bindE_def split: sum.splits)
qed

subsection \<open>References to unknown names\<close>


lemma simple_letter_before:
  "list_all (simplePiece letterVariables)
     [Flat (Text ''Dear ''), Flat (Mark ''reader''), Flat (Text '', '')]"
  by code_simp

lemma simple_letter_after:
  "list_all (simplePiece letterVariables)
     [Flat (Text '' knows ''), Loop ''langs'' [Text ''['', Mark ''this'', Text '']''],
      Flat (Text '' since ''), Flat (Mark ''date'')]"
  by code_simp

lemma interpolate_letter_before:
  "interpolate createTemplateEngine morning
     (piecesText [Flat (Text ''Dear ''), Flat (Mark ''reader''), Flat (Text '', '')])
     letterVariables = Inr ''Dear Ada, ''"
  by code_simp

lemma interpolate_letter_after:
  "interpolate createTemplateEngine morning
     (piecesText [Flat (Text '' knows ''), Loop ''langs'' [Text ''['', Mark ''this'', Text '']''],
                  Flat (Text '' since ''), Flat (Mark ''date'')])
     letterVariables = Inr '' knows [Go][Rust] since 2026-11-03''"
  by code_simp

lemma isWord_examples:
  "isWord ''unknownVar''" "isWord ''date''" "isWord ''uppercase''" "isWord ''team''"
  by (simp_all add: isWord_def isWordChar_def)

lemma not_inherited_examples:
  "\<not> inheritedName ''unknownVar''" "\<not> inheritedName ''date''" "\<not> inheritedName ''uppercase''"
  by (simp_all add: inheritedName_def objectPrototype_def)

lemma helpers_examples:
  "helpers createTemplateEngine ''unknownVar'' = None"
  "helpers createTemplateEngine ''date'' = Some dateHelper"
  "helpers createTemplateEngine ''uppercase'' = Some uppercaseHelper"
  by (simp_all add: createTemplateEngine_def registerDefaultHelpers_def registerHelper_def)



text \<open>
  A reference to the name of an inherited member is replaced by the text of that member,
  although the name is no key of the mapping: the lookup of plain substitution falls through
  to \<^verbatim>\<open>Object.prototype\<close>. The theorems on interpolation leave such names out.
\<close>

lemma interpolate_inherited_name:
  "interpolate createTemplateEngine morning ''{{constructor}}'' []
     = Inr ''function Object() { [native code] }''"
  by code_simp

subsection \<open>Bare helper names\<close>


lemma dateHelper_morning: "bindE (dateHelper morning [] variables) toStr = Inr ''2026-11-03''"
proof -
  have "formatDate morning ''YYYY-MM-DD'' = ''2026-11-03''" by code_simp
  then show ?thesis by (simp add: dateHelper_def argAt_def)
qed

lemma uppercaseHelper_empty: "bindE (uppercaseHelper morning [] variables) toStr = Inr []"
  by (simp add: uppercaseHelper_def argAt_def orElse_def toUpperCase_def)

lemma simple_today:
  "list_all (simplePiece variables) [Flat (Text ''Today: '')]"
  "list_all (simplePiece variables) [Flat (Text ''.'')]"
  by simp_all

lemma interpolate_today:
  "interpolate createTemplateEngine morning (piecesText [Flat (Text ''Today: '')]) variables
     = Inr ''Today: ''"
  "interpolate createTemplateEngine morning (piecesText [Flat (Text ''.'')]) variables = Inr ''.''"
  using interpolate_pieces [where eng = createTemplateEngine and now = morning, OF simple_today(1)]
    interpolate_pieces [where eng = createTemplateEngine and now = morning, OF simple_today(2)]
  by (simp_all add: expand_def joined_Text)



subsection \<open>Loop blocks\<close>


lemma simple_team_after:
  "list_all (simplePiece loopVariables)
     [Flat (Text ''by ''), Flat (Mark ''author''), Flat (Text '' in ''),
      Loop ''langs'' [Text ''['', Mark ''this'', Text '']'']]"
  by code_simp

lemma simple_team_body:
  "list_all (simpleBodyItem loopVariables)
     [Mark ''@index'', Text ''. '', Mark ''name'', Text '' ('', Mark ''age'', Text ''; '',
      Mark ''role'', Text ''; '', Mark ''this'', Text ''; '', Mark ''@first'', Text ''/'',
      Mark ''@last'', Text '') '', Mark ''name'', Text '' on '', Mark ''date'', Text '', '']"
  by code_simp

lemma plain_team:
  "list_all plainItem [JObj [(''name'', JStr ''Ada''), (''age'', JNum 36)],
                       JObj [(''name'', JStr ''Alan''), (''age'', JNum 41)]]"
  by code_simp

lemma interpolate_team_after:
  "interpolate createTemplateEngine morning
     (piecesText [Flat (Text ''by ''), Flat (Mark ''author''), Flat (Text '' in ''),
                  Loop ''langs'' [Text ''['', Mark ''this'', Text '']'']])
     loopVariables = Inr ''by {{author}} in [Go][Rust][Zig]''"
  by code_simp

lemma joined_team:
  "joined createTemplateEngine morning loopVariables
     (concat (map (\<lambda>(e, i). iteration loopVariables
                (length [JObj [(''name'', JStr ''Ada''), (''age'', JNum 36)],
                         JObj [(''name'', JStr ''Alan''), (''age'', JNum 41)]]) e i
                [Mark ''@index'', Text ''. '', Mark ''name'', Text '' ('', Mark ''age'', Text ''; '',
                 Mark ''role'', Text ''; '', Mark ''this'', Text ''; '', Mark ''@first'', Text ''/'',
                 Mark ''@last'', Text '') '', Mark ''name'', Text '' on '', Mark ''date'', Text '', ''])
        (zip [JObj [(''name'', JStr ''Ada''), (''age'', JNum 36)],
              JObj [(''name'', JStr ''Alan''), (''age'', JNum 41)]]
             [0..<length [JObj [(''name'', JStr ''Ada''), (''age'', JNum 36)],
                          JObj [(''name'', JStr ''Alan''), (''age'', JNum 41)]]])))
   = Inr (''0. Ada (36; {{role}}; [object Object]; true/false) Ada on 2026-11-03, ''
          @ ''1. Alan (41; {{role}}; [object Object]; false/true) Alan on 2026-11-03, '')"
  by code_simp



end
